theory Spec2Isabelle
  imports Main "HOL-Library.Char_ord" "HOL-Library.List_Lexorder" "HOL-Library.Sublist"
    "HOL-Library.AList"
begin

section \<open>Planner layer v2: data model\<close>

text \<open>
  The planner (\<^verbatim>\<open>planner_v2/planner.py\<close>) imports its data model from
  \<^verbatim>\<open>schema.py\<close> and the step state machine from \<^verbatim>\<open>lifecycle.py\<close>. Both files
  are not among the sources; their declarations below follow section 3 and
  section 4.1 of the specification and the way \<^verbatim>\<open>planner.py\<close> uses them.
  Python objects are mutated in place; here every operation returns the updated
  plan and state, and a reference to a step of a plan is its position in
  \<open>steps\<close>.
\<close>

datatype StepStatus = PENDING | ACTIVE | DONE | FAILED | SKIPPED

datatype RiskLevel = LOW | MED | HIGH

text \<open>Modelled from the spec: the outcome metadata a step captures (the payload of
  a completion, the reason of a skip); \<^verbatim>\<open>schema.py\<close> is missing.\<close>

datatype StepResult = NoResult | OutcomePayload string | SkipReason string

text \<open>Modelled from the spec: \<^verbatim>\<open>schema.Step\<close> (section 3). Free text and the opaque
  task specification are strings.\<close>

record Step =
  step_id :: string
  title :: string
  intent :: string
  allowed_files :: "string list"
  success_criteria :: string
  dependencies :: "string list"
  inputs :: "string list"
  verify :: string
  risk_level :: RiskLevel
  rollback_hint :: string
  controller_task_spec :: string
  status :: StepStatus
  failure_count :: int
  result :: StepResult

text \<open>Modelled from the spec: \<^verbatim>\<open>schema.Plan\<close> (section 3).\<close>

record Plan =
  plan_id :: string
  goal :: string
  steps :: "Step list"
  version :: int
  created_at :: string
  assumptions :: "string list"
  constraints :: "string list"

text \<open>Modelled from the spec: \<^verbatim>\<open>schema.PlanState\<close> (section 3).\<close>

record PlanState =
  current_step_idx :: int
  completed_steps :: "string list"
  failed_steps :: "string list"
  consecutive_failures :: int
  revision_count :: int
  halted :: bool
  halt_reason :: string

text \<open>Modelled from the spec: \<^verbatim>\<open>schema.ControllerOutcome\<close> (section 3). The field
  \<open>outcome_dict\<close> stands for what \<^verbatim>\<open>outcome.to_dict()\<close> returns, which the planner
  only passes on.\<close>

record ControllerOutcome =
  o_step_id :: string
  success :: bool
  error_message :: "string option"
  outcome_dict :: string

text \<open>A lifecycle call outside its precondition fails loudly (section 4.1): the
  Python raises, the model returns the error.\<close>

datatype error =
  InvalidTransition StepStatus StepStatus | KeyError string | TypeError string
  | ValueError string | OSError string

text \<open>Modelled from the spec: \<^verbatim>\<open>Plan.get_step\<close>, the first step of the plan with the
  identifier, as a position in \<open>steps\<close>; \<^verbatim>\<open>schema.py\<close> is missing.\<close>

fun find_step :: "Step list \<Rightarrow> string \<Rightarrow> nat option" where
  "find_step [] sid = None"
| "find_step (x # xs) sid =
     (if step_id x = sid then Some 0 else map_option Suc (find_step xs sid))"

definition get_step :: "Plan \<Rightarrow> string \<Rightarrow> nat option" where
  "get_step p sid = find_step (steps p) sid"

text \<open>Modelled from the spec: \<^verbatim>\<open>Plan.get_step_index\<close>, the index of that step.
  \<^verbatim>\<open>next_step\<close> only asks for a step of the plan; the value for an absent
  identifier is taken to be \<open>-1\<close>.\<close>

definition get_step_index :: "Plan \<Rightarrow> string \<Rightarrow> int" where
  "get_step_index p sid = (case get_step p sid of None \<Rightarrow> - 1 | Some i \<Rightarrow> int i)"

section \<open>Step lifecycle\<close>

text \<open>Modelled from the spec: \<^verbatim>\<open>StepLifecycle\<close> (section 4.1); \<^verbatim>\<open>lifecycle.py\<close> is
  missing. The retry ceiling is 2.\<close>

definition retry_ceiling :: int where
  "retry_ceiling = 2"

text \<open>Modelled from the spec: \<^verbatim>\<open>StepLifecycle.can_activate\<close>: the step is PENDING
  and every dependency resolves to a DONE step. The reason text of the pair is
  dropped: \<^verbatim>\<open>next_step\<close> discards it.\<close>

definition dep_done :: "Plan \<Rightarrow> string \<Rightarrow> bool" where
  "dep_done p d = (case get_step p d of None \<Rightarrow> False | Some i \<Rightarrow> status (steps p ! i) = DONE)"

definition can_activate :: "Step \<Rightarrow> Plan \<Rightarrow> bool" where
  "can_activate step p = (status step = PENDING \<and> list_all (dep_done p) (dependencies step))"

text \<open>Modelled from the spec: \<^verbatim>\<open>StepLifecycle.activate\<close>, the transition
  PENDING to ACTIVE.\<close>

definition activate :: "Step \<Rightarrow> error + Step" where
  "activate step =
     (if status step = PENDING then Inr (step\<lparr>status := ACTIVE\<rparr>)
      else Inl (InvalidTransition (status step) ACTIVE))"

text \<open>Modelled from the spec: \<^verbatim>\<open>StepLifecycle.complete\<close>.\<close>

definition complete :: "Step \<Rightarrow> string \<Rightarrow> error + Step" where
  "complete step payload =
     (if status step = ACTIVE then Inr (step\<lparr>status := DONE, result := OutcomePayload payload\<rparr>)
      else Inl (InvalidTransition (status step) DONE))"

text \<open>Modelled from the spec: \<^verbatim>\<open>StepLifecycle.fail\<close>; the second component is
  \<^verbatim>\<open>can_retry\<close>, whether the new failure count is below the ceiling.\<close>

definition fail :: "Step \<Rightarrow> string \<Rightarrow> error + (Step \<times> bool)" where
  "fail step msg =
     (if status step = ACTIVE
      then Inr (step\<lparr>status := FAILED, failure_count := failure_count step + 1\<rparr>,
                failure_count step + 1 < retry_ceiling)
      else Inl (InvalidTransition (status step) FAILED))"

text \<open>Modelled from the spec: \<^verbatim>\<open>StepLifecycle.reset_for_retry\<close>; the failure count
  is kept.\<close>

definition reset_for_retry :: "Step \<Rightarrow> error + Step" where
  "reset_for_retry step =
     (if status step = FAILED \<and> failure_count step < retry_ceiling
      then Inr (step\<lparr>status := PENDING\<rparr>)
      else Inl (InvalidTransition (status step) PENDING))"

text \<open>Modelled from the spec: \<^verbatim>\<open>StepLifecycle.can_skip\<close>.\<close>

definition can_skip :: "Step \<Rightarrow> bool" where
  "can_skip step = (risk_level step \<noteq> HIGH)"

text \<open>Modelled from the spec: \<^verbatim>\<open>StepLifecycle.skip\<close>.\<close>

definition skip :: "Step \<Rightarrow> string \<Rightarrow> error + Step" where
  "skip step reason =
     (if status step = FAILED then Inr (step\<lparr>status := SKIPPED, result := SkipReason reason\<rparr>)
      else Inl (InvalidTransition (status step) SKIPPED))"

section \<open>Scheduler: \<^verbatim>\<open>PlannerV2\<close>\<close>

text \<open>Decimal text of an integer, as an f-string prints it.\<close>

fun str_nat :: "nat \<Rightarrow> string" where
  "str_nat n =
     (if n < 10 then [char_of (48 + n)]
      else str_nat (n div 10) @ [char_of (48 + n mod 10)])"

definition str_int :: "int \<Rightarrow> string" where
  "str_int i = (if i < 0 then CHR ''-'' # str_nat (nat (- i)) else str_nat (nat i))"

text \<open>
  \<^verbatim>\<open>PlannerV2.next_step\<close> (planner.py, lines 400 to 431). The loop over
  \<^verbatim>\<open>plan.steps\<close> is \<open>next_step_loop\<close>: \<open>i\<close> is the position of the head of the
  remaining steps. The result is the returned step (its position, \<open>None\<close> for
  Python's \<^verbatim>\<open>None\<close>) with the plan and the state as the call leaves them.
\<close>

fun next_step_loop ::
  "Plan \<Rightarrow> PlanState \<Rightarrow> nat \<Rightarrow> Step list \<Rightarrow> error + (nat option \<times> Plan \<times> PlanState)" where
  "next_step_loop p s i [] = Inr (None, p, s)"
| "next_step_loop p s i (step # rest) =
     (if status step = PENDING then
        (if can_activate step p then
           (case activate step of
              Inl e \<Rightarrow> Inl e
            | Inr step' \<Rightarrow>
                (let p' = p\<lparr>steps := (steps p)[i := step']\<rparr>;
                     s' = s\<lparr>current_step_idx := get_step_index p' (step_id step')\<rparr>
                 in Inr (Some i, p', s')))
         else next_step_loop p s (Suc i) rest)
      else if status step = ACTIVE then Inr (Some i, p, s)
      else next_step_loop p s (Suc i) rest)"

definition next_step :: "Plan \<Rightarrow> PlanState \<Rightarrow> error + (nat option \<times> Plan \<times> PlanState)" where
  "next_step p s = (if halted s then Inr (None, p, s) else next_step_loop p s 0 (steps p))"

text \<open>\<^verbatim>\<open>PlannerV2.update_state\<close> (planner.py, lines 433 to 472).\<close>

definition update_state ::
  "Plan \<Rightarrow> PlanState \<Rightarrow> ControllerOutcome \<Rightarrow> error + (Plan \<times> PlanState)" where
  "update_state p s outcome =
     (case get_step p (o_step_id outcome) of
        None \<Rightarrow> Inr (p, s)
      | Some i \<Rightarrow>
          (let step = steps p ! i in
           if success outcome then
             (case complete step (outcome_dict outcome) of
                Inl e \<Rightarrow> Inl e
              | Inr step' \<Rightarrow>
                  Inr (p\<lparr>steps := (steps p)[i := step']\<rparr>,
                       s\<lparr>completed_steps := completed_steps s @ [o_step_id outcome],
                         consecutive_failures := 0\<rparr>))
           else
             (case fail step (case error_message outcome of
                                None \<Rightarrow> ''Unknown error''
                              | Some m \<Rightarrow> if m = [] then ''Unknown error'' else m) of
                Inl e \<Rightarrow> Inl e
              | Inr (step', can_retry) \<Rightarrow>
                  (let p' = p\<lparr>steps := (steps p)[i := step']\<rparr>;
                       s1 = s\<lparr>failed_steps := failed_steps s @ [o_step_id outcome],
                              consecutive_failures := consecutive_failures s + 1\<rparr>
                   in if \<not> can_retry \<or> consecutive_failures s1 \<ge> 2
                      then Inr (p', s1\<lparr>halted := True,
                                      halt_reason := ''Step '' @ o_step_id outcome @ '' failed ''
                                        @ str_int (failure_count step') @ '' times''\<rparr>)
                      else Inr (p', s1)))))"

text \<open>\<^verbatim>\<open>PlannerV2.revise_plan\<close> (planner.py, lines 474 to 515).\<close>

definition revise_plan ::
  "Plan \<Rightarrow> PlanState \<Rightarrow> ControllerOutcome \<Rightarrow> error + (Plan \<times> PlanState)" where
  "revise_plan p s failure =
     (case get_step p (o_step_id failure) of
        None \<Rightarrow> Inr (p, s)
      | Some i \<Rightarrow>
          (let step = steps p ! i in
           if failure_count step = 1 then
             (case reset_for_retry step of
                Inl e \<Rightarrow> Inl e
              | Inr step' \<Rightarrow>
                  Inr (p\<lparr>steps := (steps p)[i := step'], version := version p + 1\<rparr>,
                       s\<lparr>revision_count := revision_count s + 1, consecutive_failures := 0\<rparr>))
           else if failure_count step = 2 \<and> can_skip step then
             (case skip step ''Non-critical step failed twice'' of
                Inl e \<Rightarrow> Inl e
              | Inr step' \<Rightarrow>
                  Inr (p\<lparr>steps := (steps p)[i := step'], version := version p + 1\<rparr>,
                       s\<lparr>revision_count := revision_count s + 1\<rparr>))
           else Inr (p, s)))"

text \<open>\<^verbatim>\<open>PlannerV2.is_complete\<close> (planner.py, lines 517 to 538).\<close>

definition is_complete :: "Plan \<Rightarrow> PlanState \<Rightarrow> bool" where
  "is_complete p s =
     (if halted s then True
      else list_all (\<lambda>step. status step = DONE \<or> status step = SKIPPED) (steps p))"

text \<open>
  A caller drives the engine by a sequence of calls on one plan and one state.
  \<open>run\<close> threads both through the calls, collects what each \<^verbatim>\<open>next_step\<close>
  returned, and stops at the first call that raises.
\<close>

datatype call = NextStep | UpdateState ControllerOutcome | RevisePlan ControllerOutcome

fun engine_call ::
  "Plan \<Rightarrow> PlanState \<Rightarrow> call \<Rightarrow> error + (nat option list \<times> Plan \<times> PlanState)" where
  "engine_call p s NextStep =
     (case next_step p s of Inl e \<Rightarrow> Inl e | Inr (r, p', s') \<Rightarrow> Inr ([r], p', s'))"
| "engine_call p s (UpdateState outcome) =
     (case update_state p s outcome of Inl e \<Rightarrow> Inl e | Inr (p', s') \<Rightarrow> Inr ([], p', s'))"
| "engine_call p s (RevisePlan failure) =
     (case revise_plan p s failure of Inl e \<Rightarrow> Inl e | Inr (p', s') \<Rightarrow> Inr ([], p', s'))"

fun run ::
  "Plan \<Rightarrow> PlanState \<Rightarrow> call list \<Rightarrow> error + (nat option list \<times> Plan \<times> PlanState)" where
  "run p s [] = Inr ([], p, s)"
| "run p s (c # cs) =
     (case engine_call p s c of
        Inl e \<Rightarrow> Inl e
      | Inr (rs, p', s') \<Rightarrow>
          (case run p' s' cs of
             Inl e \<Rightarrow> Inl e
           | Inr (rs', p'', s'') \<Rightarrow> Inr (rs @ rs', p'', s'')))"

text \<open>The plan after step \<open>k\<close> was activated in place.\<close>

definition activated :: "Plan \<Rightarrow> nat \<Rightarrow> Plan" where
  "activated p k = p\<lparr>steps := (steps p)[k := (steps p ! k)\<lparr>status := ACTIVE\<rparr>]\<rparr>"

subsection \<open>Test data\<close>

text \<open>A new step is PENDING and has not failed (section 4.1); a run starts from a
  fresh state (section 3).\<close>

definition new_step :: "string \<Rightarrow> string list \<Rightarrow> RiskLevel \<Rightarrow> Step" where
  "new_step sid deps risk =
     \<lparr>step_id = sid, title = [], intent = [], allowed_files = [], success_criteria = [],
      dependencies = deps, inputs = [], verify = [], risk_level = risk, rollback_hint = [],
      controller_task_spec = [], status = PENDING, failure_count = 0, result = NoResult\<rparr>"

definition new_plan :: "Step list \<Rightarrow> Plan" where
  "new_plan xs =
     \<lparr>plan_id = ''plan-0123456789ab'', goal = [], steps = xs, version = 1, created_at = [],
      assumptions = [], constraints = []\<rparr>"

definition fresh_state :: PlanState where
  "fresh_state =
     \<lparr>current_step_idx = 0, completed_steps = [], failed_steps = [], consecutive_failures = 0,
      revision_count = 0, halted = False, halt_reason = []\<rparr>"

definition succeeded :: "string \<Rightarrow> ControllerOutcome" where
  "succeeded sid = \<lparr>o_step_id = sid, success = True, error_message = None, outcome_dict = []\<rparr>"

definition failed :: "string \<Rightarrow> ControllerOutcome" where
  "failed sid =
     \<lparr>o_step_id = sid, success = False, error_message = Some ''boom'', outcome_dict = []\<rparr>"

text \<open>What the tests look at: the calls' results, every step's status and failure
  count, and the counters of the state.\<close>

definition summary ::
  "error + (nat option list \<times> Plan \<times> PlanState) \<Rightarrow>
   error + (nat option list \<times> (StepStatus \<times> int) list \<times> int \<times> bool)" where
  "summary x =
     (case x of
        Inl e \<Rightarrow> Inl e
      | Inr (rs, p, s) \<Rightarrow>
          Inr (rs, map (\<lambda>step. (status step, failure_count step)) (steps p),
               consecutive_failures s, halted s))"

text \<open>Scenario A: a linear plan of three steps, \<open>b\<close> of the given risk level, and
  the calls of a run in which \<open>a\<close> succeeds and \<open>b\<close> fails twice, the revision
  policy applied after each failure.\<close>

definition linear_plan :: "RiskLevel \<Rightarrow> Plan" where
  "linear_plan risk =
     new_plan [new_step ''a'' [] LOW, new_step ''b'' [''a''] risk, new_step ''c'' [''b''] LOW]"

definition scenario_a :: "ControllerOutcome \<Rightarrow> ControllerOutcome \<Rightarrow> call list" where
  "scenario_a oa fb =
     [NextStep, UpdateState oa, NextStep, UpdateState fb, RevisePlan fb,
      NextStep, UpdateState fb, RevisePlan fb, NextStep]"

text \<open>Scenario C: two independent steps.\<close>

definition pair_plan :: Plan where
  "pair_plan = new_plan [new_step ''a'' [] LOW, new_step ''b'' [] LOW]"

text \<open>A plan after failures: step \<open>a\<close> has failed three times, step \<open>b\<close>, of
  the given risk level, twice.\<close>

definition twice_failed :: "RiskLevel \<Rightarrow> Plan" where
  "twice_failed risk =
     new_plan [(new_step ''a'' [] LOW)\<lparr>status := FAILED, failure_count := 3\<rparr>,
               (new_step ''b'' [] risk)\<lparr>status := FAILED, failure_count := 2\<rparr>]"

text \<open>The plan and the state in which scenario C ends when no revision is applied:
  both steps have failed once and the run is halted.\<close>

definition both_failed :: Plan where
  "both_failed =
     new_plan [(new_step ''a'' [] LOW)\<lparr>status := FAILED, failure_count := 1\<rparr>,
               (new_step ''b'' [] LOW)\<lparr>status := FAILED, failure_count := 1\<rparr>]"

definition halted_state :: PlanState where
  "halted_state =
     \<lparr>current_step_idx = 1, completed_steps = [], failed_steps = [''a'', ''b''],
      consecutive_failures = 2, revision_count = 0, halted = True,
      halt_reason = ''Step b failed 1 times''\<rparr>"

text \<open>A plan whose only step is in flight on its retry: it has failed once.\<close>

definition retrying :: Plan where
  "retrying = new_plan [(new_step ''a'' [] LOW)\<lparr>status := ACTIVE, failure_count := 1\<rparr>]"

text \<open>The plan and the state after scenario C, with no revision between the
  failures, was followed by the revision of \<open>b\<close>'s failure: the run is halted and
  \<open>b\<close>, which has failed once, is PENDING again.\<close>

definition reset_plan :: Plan where
  "reset_plan =
     (new_plan [(new_step ''a'' [] LOW)\<lparr>status := FAILED, failure_count := 1\<rparr>,
                (new_step ''b'' [] LOW)\<lparr>status := PENDING, failure_count := 1\<rparr>])
       \<lparr>version := 2\<rparr>"

definition reset_state :: PlanState where
  "reset_state = halted_state\<lparr>revision_count := 1, consecutive_failures := 0\<rparr>"

section \<open>Artifact log\<close>

text \<open>
  The Python values the artifact log handles. The dataclasses check no types, so a
  field holds any value. A dictionary is its list of items in insertion order, with
  the keys JSON accepts (\<^verbatim>\<open>str\<close>, \<^verbatim>\<open>int\<close>, \<^verbatim>\<open>float\<close>, \<^verbatim>\<open>bool\<close>, \<^verbatim>\<open>None\<close>)
  and, for a key it refuses, a tuple of integers. A floating point number is given
  by the text JSON writes for it (\<^verbatim>\<open>repr\<close> of the number, \<^verbatim>\<open>Infinity\<close>,
  \<^verbatim>\<open>-Infinity\<close> or \<^verbatim>\<open>NaN\<close>), which JSON reads back as the same number.
  \<open>PObject\<close> is an instance of a plain class (named by the class): JSON cannot
  serialise it, and it can be neither iterated nor subscripted.
\<close>

datatype pykey =
  KStr string | KInt int | KFloat string | KBool bool | KNone | KTuple "int list"

datatype pyval =
  PNone | PBool bool | PInt int | PFloat string | PStr string | PList "pyval list"
  | PTuple "pyval list"
  | PDict "(pykey \<times> pyval) list" | PObject string

type_synonym pydict = "(pykey \<times> pyval) list"

text \<open>\<^verbatim>\<open>StepArtifact\<close> (artifact_log.py, lines 21 to 54).\<close>

record StepArtifact =
  sa_step_id :: pyval
  task_spec_json :: pyval
  outcome_json :: pyval
  diff_summary_hash :: pyval
  wall_clock_ms :: pyval
  timestamp :: pyval
  files_touched :: pyval

text \<open>\<^verbatim>\<open>PlanArtifact\<close> (artifact_log.py, lines 57 to 100). \<^verbatim>\<open>to_dict\<close> calls
  \<^verbatim>\<open>to_dict\<close> on every element of \<^verbatim>\<open>step_artifacts\<close>, so that field is a list of
  step artifacts.\<close>

record PlanArtifact =
  pa_plan_id :: pyval
  plan_json :: pyval
  repo_fingerprint :: pyval
  step_artifacts :: "StepArtifact list"
  start_time :: pyval
  end_time :: pyval
  final_status :: pyval
  metadata :: pyval

text \<open>Sequencing of computations that may raise.\<close>

definition bind_err :: "error + 'a \<Rightarrow> ('a \<Rightarrow> error + 'b) \<Rightarrow> error + 'b" where
  "bind_err x f = (case x of Inl e \<Rightarrow> Inl e | Inr v \<Rightarrow> f v)"

fun map_err :: "('a \<Rightarrow> error + 'b) \<Rightarrow> 'a list \<Rightarrow> error + 'b list" where
  "map_err f [] = Inr []"
| "map_err f (x # xs) =
     bind_err (f x) (\<lambda>y. bind_err (map_err f xs) (\<lambda>ys. Inr (y # ys)))"

text \<open>\<^verbatim>\<open>data[key]\<close> for a string key: a missing key raises \<^verbatim>\<open>KeyError\<close>, and a value
  that is no dictionary raises \<^verbatim>\<open>TypeError\<close>.\<close>

fun item :: "pyval \<Rightarrow> string \<Rightarrow> error + pyval" where
  "item (PDict d) key =
     (case map_of d (KStr key) of None \<Rightarrow> Inl (KeyError key) | Some v \<Rightarrow> Inr v)"
| "item v key = Inl (TypeError key)"

text \<open>\<^verbatim>\<open>data.get(key, default)\<close> on a dictionary.\<close>

definition get_default :: "pydict \<Rightarrow> string \<Rightarrow> pyval \<Rightarrow> pyval" where
  "get_default d key dflt = (case map_of d (KStr key) of None \<Rightarrow> dflt | Some v \<Rightarrow> v)"

text \<open>A key as the value an iteration over the dictionary yields.\<close>

fun key_value :: "pykey \<Rightarrow> pyval" where
  "key_value (KStr s) = PStr s"
| "key_value (KInt i) = PInt i"
| "key_value (KFloat r) = PFloat r"
| "key_value (KBool b) = PBool b"
| "key_value KNone = PNone"
| "key_value (KTuple xs) = PTuple (map PInt xs)"

text \<open>The elements a \<^verbatim>\<open>for\<close> loop over a value runs through: a list's or tuple's
  elements, a string's characters, a dictionary's keys; anything else raises
  \<^verbatim>\<open>TypeError\<close>.\<close>

fun iterate :: "pyval \<Rightarrow> error + pyval list" where
  "iterate (PList xs) = Inr xs"
| "iterate (PTuple xs) = Inr xs"
| "iterate (PStr s) = Inr (map (\<lambda>c. PStr [c]) s)"
| "iterate (PDict d) = Inr (map (\<lambda>kv. key_value (fst kv)) d)"
| "iterate v = Inl (TypeError ''not iterable'')"

text \<open>\<^verbatim>\<open>StepArtifact.to_dict\<close> and \<^verbatim>\<open>StepArtifact.from_dict\<close>. The first thing
  \<^verbatim>\<open>from_dict\<close> does is \<^verbatim>\<open>data["step_id"]\<close>, which raises \<^verbatim>\<open>TypeError\<close> unless
  \<^verbatim>\<open>data\<close> is a dictionary.\<close>

definition step_to_dict :: "StepArtifact \<Rightarrow> pydict" where
  "step_to_dict a =
     [(KStr ''step_id'', sa_step_id a),
      (KStr ''task_spec_json'', task_spec_json a),
      (KStr ''outcome_json'', outcome_json a),
      (KStr ''diff_summary_hash'', diff_summary_hash a),
      (KStr ''wall_clock_ms'', wall_clock_ms a),
      (KStr ''timestamp'', timestamp a),
      (KStr ''files_touched'', files_touched a)]"

definition step_from_dict :: "pyval \<Rightarrow> error + StepArtifact" where
  "step_from_dict data =
     (case data of
        PDict d \<Rightarrow>
          bind_err (item data ''step_id'') (\<lambda>sid.
          bind_err (item data ''task_spec_json'') (\<lambda>spec.
          bind_err (item data ''outcome_json'') (\<lambda>outcome.
          bind_err (item data ''diff_summary_hash'') (\<lambda>h.
          bind_err (item data ''wall_clock_ms'') (\<lambda>ms.
          bind_err (item data ''timestamp'') (\<lambda>ts.
            Inr \<lparr>sa_step_id = sid, task_spec_json = spec, outcome_json = outcome,
                 diff_summary_hash = h, wall_clock_ms = ms, timestamp = ts,
                 files_touched = get_default d ''files_touched'' (PList [])\<rparr>))))))
      | _ \<Rightarrow> Inl (TypeError ''step_id''))"

text \<open>\<^verbatim>\<open>PlanArtifact.to_dict\<close> and \<^verbatim>\<open>PlanArtifact.from_dict\<close>; the keyword
  arguments are evaluated in the order written.\<close>

definition to_dict :: "PlanArtifact \<Rightarrow> pydict" where
  "to_dict a =
     [(KStr ''plan_id'', pa_plan_id a),
      (KStr ''plan_json'', plan_json a),
      (KStr ''repo_fingerprint'', repo_fingerprint a),
      (KStr ''step_artifacts'', PList (map (\<lambda>s. PDict (step_to_dict s)) (step_artifacts a))),
      (KStr ''start_time'', start_time a),
      (KStr ''end_time'', end_time a),
      (KStr ''final_status'', final_status a),
      (KStr ''metadata'', metadata a)]"

definition from_dict :: "pyval \<Rightarrow> error + PlanArtifact" where
  "from_dict data =
     (case data of
        PDict d \<Rightarrow>
          bind_err (item data ''plan_id'') (\<lambda>pid.
          bind_err (item data ''plan_json'') (\<lambda>pj.
          bind_err (item data ''repo_fingerprint'') (\<lambda>fp.
          bind_err (bind_err (iterate (get_default d ''step_artifacts'' (PList [])))
                      (map_err step_from_dict)) (\<lambda>sas.
          bind_err (item data ''start_time'') (\<lambda>st.
          bind_err (item data ''end_time'') (\<lambda>et.
          bind_err (item data ''final_status'') (\<lambda>fin.
            Inr \<lparr>pa_plan_id = pid, plan_json = pj, repo_fingerprint = fp,
                 step_artifacts = sas, start_time = st, end_time = et,
                 final_status = fin,
                 metadata = get_default d ''metadata'' (PDict [])\<rparr>)))))))
      | _ \<Rightarrow> Inl (TypeError ''plan_id''))"

subsection \<open>JSON\<close>

text \<open>
  \<^verbatim>\<open>json.dumps\<close> and \<^verbatim>\<open>json.loads\<close> are the standard library's. A JSON text is
  represented by the document it spells (the layout that \<^verbatim>\<open>indent=2\<close> chooses
  plays no part), and the two functions by what they do to values: \<^verbatim>\<open>dumps\<close>
  writes a tuple as an array and every key as a string, and raises \<^verbatim>\<open>TypeError\<close>
  on a key or value it cannot serialise; \<^verbatim>\<open>loads\<close> reads an array as a list and
  an object as a dictionary with string keys, a repeated key keeping its first
  place and its last value.
\<close>

datatype json =
  JNull | JBool bool | JInt int | JFloat string | JStr string | JArray "json list"
  | JObject "(string \<times> json) list"

type_synonym json_text = json

fun dump_key :: "pykey \<Rightarrow> error + string" where
  "dump_key (KStr s) = Inr s"
| "dump_key (KInt i) = Inr (str_int i)"
| "dump_key (KFloat r) = Inr r"
| "dump_key (KBool b) = Inr (if b then ''true'' else ''false'')"
| "dump_key KNone = Inr ''null''"
| "dump_key (KTuple xs) = Inl (TypeError ''keys must be str, int, float, bool or None'')"

definition dump_item :: "pykey \<times> (error + json) \<Rightarrow> error + (string \<times> json)" where
  "dump_item kv = bind_err (dump_key (fst kv)) (\<lambda>k. bind_err (snd kv) (\<lambda>j. Inr (k, j)))"

text \<open>The results of a sequence of computations, or the first exception.\<close>

fun all_ok :: "(error + 'a) list \<Rightarrow> error + 'a list" where
  "all_ok [] = Inr []"
| "all_ok (Inl e # rs) = Inl e"
| "all_ok (Inr v # rs) = bind_err (all_ok rs) (\<lambda>vs. Inr (v # vs))"

primrec json_dumps :: "pyval \<Rightarrow> error + json" where
  "json_dumps PNone = Inr JNull"
| "json_dumps (PBool b) = Inr (JBool b)"
| "json_dumps (PInt i) = Inr (JInt i)"
| "json_dumps (PFloat r) = Inr (JFloat r)"
| "json_dumps (PStr s) = Inr (JStr s)"
| "json_dumps (PList xs) = bind_err (all_ok (map json_dumps xs)) (\<lambda>js. Inr (JArray js))"
| "json_dumps (PTuple xs) = bind_err (all_ok (map json_dumps xs)) (\<lambda>js. Inr (JArray js))"
| "json_dumps (PDict d) =
     bind_err (all_ok (map dump_item (map (map_prod id json_dumps) d)))
       (\<lambda>items. Inr (JObject items))"
| "json_dumps (PObject c) = Inl (TypeError c)"

text \<open>The dictionary Python builds from a sequence of pairs.\<close>

definition dict_of_pairs :: "pydict \<Rightarrow> pydict" where
  "dict_of_pairs ps = foldl (\<lambda>d kv. AList.update (fst kv) (snd kv) d) [] ps"

primrec json_loads :: "json \<Rightarrow> pyval" where
  "json_loads JNull = PNone"
| "json_loads (JBool b) = PBool b"
| "json_loads (JInt i) = PInt i"
| "json_loads (JFloat r) = PFloat r"
| "json_loads (JStr s) = PStr s"
| "json_loads (JArray js) = PList (map json_loads js)"
| "json_loads (JObject items) = PDict (dict_of_pairs (map (map_prod KStr json_loads) items))"



text \<open>\<^verbatim>\<open>PlanArtifact.to_json\<close> and \<^verbatim>\<open>PlanArtifact.from_json\<close>.\<close>

definition to_json :: "PlanArtifact \<Rightarrow> error + json_text" where
  "to_json a = json_dumps (PDict (to_dict a))"

definition from_json :: "json_text \<Rightarrow> error + PlanArtifact" where
  "from_json doc = from_dict (json_loads doc)"

subsection \<open>The log\<close>

text \<open>The dictionary \<^verbatim>\<open>record_plan_start\<close> stores for a running plan; its keys are
  fixed, so it is a record. Its values have the types of what
  \<^verbatim>\<open>record_plan_start\<close> and \<^verbatim>\<open>record_step\<close> put there.\<close>

record ActiveArtifact =
  a_plan_id :: string
  a_plan_json :: string
  a_repo_fingerprint :: string
  a_step_artifacts :: "pydict list"
  a_start_time :: string
  a_end_time :: string
  a_final_status :: string
  a_metadata :: pydict

text \<open>\<^verbatim>\<open>PlanArtifactLog\<close> (artifact_log.py, lines 103 to 264): the output directory,
  the files that are directly in it (name and content), and the active artifacts
  by identifier.\<close>

record PlanArtifactLog =
  output_dir :: string
  files :: "(string \<times> json_text) list"
  active_artifacts :: "(string \<times> ActiveArtifact) list"

text \<open>
  \<^verbatim>\<open>record_plan_start\<close> (lines 116 to 145). The clock is read outside:
  \<open>stamp\<close> is what \<^verbatim>\<open>_timestamp()\<close> returns and \<open>now\<close> what \<^verbatim>\<open>_now_iso()\<close>
  returns. \<open>plan_text\<close> is \<^verbatim>\<open>plan.to_json()\<close>, of the missing \<^verbatim>\<open>schema.py\<close>.
\<close>

definition record_plan_start ::
  "PlanArtifactLog \<Rightarrow> Plan \<Rightarrow> string \<Rightarrow> string \<Rightarrow> pydict option \<Rightarrow> string \<Rightarrow> string
   \<Rightarrow> string \<times> PlanArtifactLog" where
  "record_plan_start log plan plan_text fingerprint meta stamp now =
     (let artifact_id = plan_id plan @ ''_'' @ stamp
      in (artifact_id,
          log\<lparr>active_artifacts :=
                AList.update artifact_id
                  \<lparr>a_plan_id = plan_id plan, a_plan_json = plan_text,
                   a_repo_fingerprint = fingerprint, a_step_artifacts = [],
                   a_start_time = now, a_end_time = [], a_final_status = ''running'',
                   a_metadata = (case meta of None \<Rightarrow> [] | Some m \<Rightarrow> m)\<rparr>
                  (active_artifacts log)\<rparr>))"

text \<open>\<^verbatim>\<open>_hash_diff\<close> (lines 261 to 264); \<open>sha256_hex\<close> is the library's digest.\<close>

definition hash_diff :: "(string \<Rightarrow> string) \<Rightarrow> string \<Rightarrow> string" where
  "hash_diff sha256_hex diff = take 16 (sha256_hex diff)"

text \<open>
  \<^verbatim>\<open>record_step\<close> (lines 147 to 181). Of the task specification the log uses
  its step identifier and its JSON text, of the outcome its JSON text.
\<close>

definition record_step ::
  "(string \<Rightarrow> string) \<Rightarrow> PlanArtifactLog \<Rightarrow> string \<Rightarrow> string \<Rightarrow> string \<Rightarrow> string \<Rightarrow> string
   \<Rightarrow> int \<Rightarrow> string list option \<Rightarrow> string \<Rightarrow> PlanArtifactLog" where
  "record_step sha256_hex log artifact_id spec_step_id spec_json outcome_text diff elapsed_ms
     touched now =
     (case map_of (active_artifacts log) artifact_id of
        None \<Rightarrow> log
      | Some data \<Rightarrow>
          (let step_artifact =
                 \<lparr>sa_step_id = PStr spec_step_id, task_spec_json = PStr spec_json,
                  outcome_json = PStr outcome_text,
                  diff_summary_hash = PStr (hash_diff sha256_hex diff),
                  wall_clock_ms = PInt elapsed_ms, timestamp = PStr now,
                  files_touched =
                    PList (map PStr (case touched of None \<Rightarrow> [] | Some fs \<Rightarrow> fs))\<rparr>
           in log\<lparr>active_artifacts :=
                    AList.update artifact_id
                      (data\<lparr>a_step_artifacts :=
                              a_step_artifacts data @ [step_to_dict step_artifact]\<rparr>)
                      (active_artifacts log)\<rparr>))"

text \<open>
  \<^verbatim>\<open>filepath.write_text\<close> in \<^verbatim>\<open>finalize\<close>. A name with a null character raises
  \<^verbatim>\<open>ValueError\<close>. A name without a slash is a file directly in the output
  directory; it is written there (the directory exists since \<^verbatim>\<open>__init__\<close>, and
  the device is taken to accept the write). A name with a slash leaves the
  directory: what then happens (the write raises, or a file is written elsewhere,
  and under which path) is up to the file system beyond the directory, the
  parameter \<open>outside\<close>; the directory's own files stay as they are.
\<close>

definition write_text ::
  "(string \<Rightarrow> error + string) \<Rightarrow> PlanArtifactLog \<Rightarrow> string \<Rightarrow> json_text
   \<Rightarrow> (error + string) \<times> PlanArtifactLog" where
  "write_text outside log name doc =
     (if CHR 0x00 \<in> set name then (Inl (ValueError name), log)
      else if CHR ''/'' \<in> set name then (outside name, log)
      else (Inr (output_dir log @ ''/'' @ name),
            log\<lparr>files := AList.update name doc (files log)\<rparr>))"

text \<open>
  \<^verbatim>\<open>finalize\<close> (lines 183 to 220): the path written, or \<open>None\<close>, or the
  exception raised, together with the log as the call leaves it. The identifier
  is popped before anything can raise.
\<close>

definition finalize ::
  "(string \<Rightarrow> error + string) \<Rightarrow> PlanArtifactLog \<Rightarrow> string \<Rightarrow> string \<Rightarrow> string
   \<Rightarrow> (error + string option) \<times> PlanArtifactLog" where
  "finalize outside log artifact_id final now =
     (case map_of (active_artifacts log) artifact_id of
        None \<Rightarrow> (Inr None, log)
      | Some data0 \<Rightarrow>
          (let log1 = log\<lparr>active_artifacts := AList.delete artifact_id (active_artifacts log)\<rparr>;
               data = data0\<lparr>a_end_time := now, a_final_status := final\<rparr>
           in case map_err step_from_dict (map PDict (a_step_artifacts data)) of
                Inl e \<Rightarrow> (Inl e, log1)
              | Inr sas \<Rightarrow>
                  (let artifact =
                         \<lparr>pa_plan_id = PStr (a_plan_id data), plan_json = PStr (a_plan_json data),
                          repo_fingerprint = PStr (a_repo_fingerprint data),
                          step_artifacts = sas,
                          start_time = PStr (a_start_time data),
                          end_time = PStr (a_end_time data),
                          final_status = PStr final, metadata = PDict (a_metadata data)\<rparr>
                   in case to_json artifact of
                        Inl e \<Rightarrow> (Inl e, log1)
                      | Inr doc \<Rightarrow>
                          (case write_text outside log1 (artifact_id @ ''.json'') doc of
                             (Inl e, log2) \<Rightarrow> (Inl e, log2)
                           | (Inr path, log2) \<Rightarrow> (Inr (Some path), log2)))))"

text \<open>\<^verbatim>\<open>load\<close> (lines 222 to 235), for an identifier without a slash.\<close>

definition load :: "PlanArtifactLog \<Rightarrow> string \<Rightarrow> error + PlanArtifact option" where
  "load log artifact_id =
     (case map_of (files log) (artifact_id @ ''.json'') of
        None \<Rightarrow> Inr None
      | Some doc \<Rightarrow> bind_err (from_json doc) (\<lambda>a. Inr (Some a)))"

text \<open>
  \<^verbatim>\<open>list_artifacts\<close> (lines 237 to 251). \<open>glob_json\<close> is the directory's names that
  match \<^verbatim>\<open>*.json\<close>, \<open>stem\<close> is \<^verbatim>\<open>Path.stem\<close> of such a name (the name itself when
  nothing stands before the dot), \<^verbatim>\<open>startswith\<close> is \<open>prefix\<close>, and
  \<^verbatim>\<open>sorted(..., reverse=True)\<close> sorts strings by their characters' codes.
\<close>

definition glob_json :: "PlanArtifactLog \<Rightarrow> string list" where
  "glob_json log = filter (suffix ''.json'') (map fst (files log))"

definition stem :: "string \<Rightarrow> string" where
  "stem name = (if length name > 5 then take (length name - 5) name else name)"

definition list_artifacts :: "PlanArtifactLog \<Rightarrow> string option \<Rightarrow> string list" where
  "list_artifacts log filter_plan_id =
     rev (sort (filter (\<lambda>artifact_id.
                          (case filter_plan_id of
                             None \<Rightarrow> True
                           | Some pid \<Rightarrow> prefix pid artifact_id))
                       (map stem (glob_json log))))"

text \<open>A new log: \<^verbatim>\<open>__init__\<close> (lines 106 to 114), on an empty directory.\<close>

definition new_log :: "string \<Rightarrow> PlanArtifactLog" where
  "new_log dir = \<lparr>output_dir = dir @ ''/plan_artifacts'', files = [], active_artifacts = []\<rparr>"

subsection \<open>Test data for the log\<close>



text \<open>A file system in which every write beyond the output directory fails.\<close>

definition no_outside :: "string \<Rightarrow> error + string" where
  "no_outside name = Inl (OSError name)"

text \<open>A log in which the plan \<open>p\<close> was started, given one step and finalized,
  and a year later the plan \<open>p1\<close> was started and finalized.\<close>

definition started :: "string \<Rightarrow> string \<Rightarrow> PlanArtifactLog \<Rightarrow> PlanArtifactLog" where
  "started pid stamp log =
     snd (record_plan_start log ((new_plan [])\<lparr>plan_id := pid\<rparr>) ''{}'' ''f00d'' None stamp
            ''start'')"

definition finalized :: "string \<Rightarrow> PlanArtifactLog \<Rightarrow> PlanArtifactLog" where
  "finalized artifact_id log = snd (finalize no_outside log artifact_id ''success'' ''end'')"

definition example_log :: PlanArtifactLog where
  "example_log =
     finalized ''p1_20270101_000000''
       (started ''p1'' ''20270101_000000''
          (finalized ''p_20260101_000000''
             (record_step (\<lambda>diff. replicate 64 CHR ''0'')
                (started ''p'' ''20260101_000000'' (new_log ''out''))
                ''p_20260101_000000'' ''a'' ''{}'' ''{}'' ''diff'' 12 None ''t'')))"

section \<open>Properties\<close>

subsection \<open>Auxiliary facts\<close>

lemmas lifecycle_defs = can_activate_def dep_done_def activate_def complete_def fail_def
  reset_for_retry_def can_skip_def skip_def retry_ceiling_def

lemmas engine_defs = next_step_def update_state_def revise_plan_def get_step_def
  get_step_index_def Let_def

lemmas test_defs = new_step_def new_plan_def fresh_state_def succeeded_def failed_def
  summary_def linear_plan_def scenario_a_def pair_plan_def

lemma find_step_less: "find_step xs sid = Some i \<Longrightarrow> i < length xs"
  by (induction xs arbitrary: i) (auto split: if_splits)

lemma find_step_id: "find_step xs sid = Some i \<Longrightarrow> step_id (xs ! i) = sid"
  by (induction xs arbitrary: i) (auto split: if_splits)

lemma find_step_update:
  "step_id x = step_id (xs ! k) \<Longrightarrow> k < length xs \<Longrightarrow> find_step (xs[k := x]) sid = find_step xs sid"
proof (induction xs arbitrary: k)
  case Nil
  then show ?case by simp
next
  case (Cons a xs)
  then show ?case by (cases k) auto
qed

lemma get_step_less: "get_step p sid = Some i \<Longrightarrow> i < length (steps p)"
  by (simp add: get_step_def find_step_less)

lemma nth_update_if: "(xs[i := x]) ! j = (if i = j \<and> i < length xs then x else xs ! j)"
  by (cases "i < length xs") (auto simp: nth_list_update list_update_beyond)

lemma drop_ConsD:
  assumes "drop i xs = y # ys"
  shows "i < length xs" and "xs ! i = y" and "drop (Suc i) xs = ys"
proof -
  show i: "i < length xs" using assms by (cases "i < length xs") auto
  from Cons_nth_drop_Suc [OF i] assms show "xs ! i = y" and "drop (Suc i) xs = ys" by auto
qed

subsection \<open>What \<^verbatim>\<open>next_step\<close> returns\<close>

text \<open>The loop never raises. It returns \<open>None\<close> and changes nothing, or returns a
  step that was ACTIVE and changes nothing, or activates a PENDING step whose
  dependencies are DONE and returns it.\<close>

lemma next_step_loop_result:
  assumes "drop i (steps p) = rest"
  shows "next_step_loop p s i rest = Inr (None, p, s)
    \<or> (\<exists>k. i \<le> k \<and> k < length (steps p) \<and> status (steps p ! k) = ACTIVE
          \<and> next_step_loop p s i rest = Inr (Some k, p, s))
    \<or> (\<exists>k. i \<le> k \<and> k < length (steps p) \<and> can_activate (steps p ! k) p
          \<and> next_step_loop p s i rest =
              Inr (Some k, activated p k,
                   s\<lparr>current_step_idx := get_step_index (activated p k) (step_id (steps p ! k))\<rparr>))"
  using assms
proof (induction rest arbitrary: i)
  case Nil
  then show ?case by simp
next
  case (Cons step rest)
  note d = drop_ConsD [OF Cons.prems]
  consider (act) "status step = PENDING" "can_activate step p"
    | (active) "status step = ACTIVE"
    | (skip) "next_step_loop p s i (step # rest) = next_step_loop p s (Suc i) rest"
    by (cases "status step"; cases "can_activate step p") auto
  then show ?case
  proof cases
    case act
    then have "next_step_loop p s i (step # rest) =
       Inr (Some i, activated p i,
            s\<lparr>current_step_idx := get_step_index (activated p i) (step_id (steps p ! i))\<rparr>)"
      using d by (simp add: activate_def activated_def Let_def)
    with act d show ?thesis by blast
  next
    case active
    then have "next_step_loop p s i (step # rest) = Inr (Some i, p, s)" by simp
    with active d show ?thesis by blast
  next
    case skip
    from Cons.IH [OF d(3)] show ?thesis
      unfolding skip by (metis Suc_leD)
  qed
qed

lemma next_step_result:
  "next_step p s = Inr (None, p, s)
    \<or> (\<exists>k. k < length (steps p) \<and> status (steps p ! k) = ACTIVE \<and> \<not> halted s
          \<and> next_step p s = Inr (Some k, p, s))
    \<or> (\<exists>k. k < length (steps p) \<and> can_activate (steps p ! k) p \<and> \<not> halted s
          \<and> next_step p s =
              Inr (Some k, activated p k,
                   s\<lparr>current_step_idx := get_step_index (activated p k) (step_id (steps p ! k))\<rparr>))"
proof (cases "halted s")
  case True
  then show ?thesis by (simp add: next_step_def)
next
  case False
  with next_step_loop_result [of 0 p "steps p" s] show ?thesis
    by (simp add: next_step_def)
qed

lemma next_step_total: "\<exists>r p' s'. next_step p s = Inr (r, p', s')"
  using next_step_result [of p s] by blast

text \<open>Activating a PENDING step changes no dependency's being DONE.\<close>

lemma dep_done_activated:
  assumes "k < length (steps p)" "status (steps p ! k) = PENDING"
  shows "dep_done (activated p k) d = dep_done p d"
  using assms
  by (auto simp: dep_done_def get_step_def activated_def find_step_update nth_update_if
      split: option.splits)

lemma can_activate_activated:
  assumes "k < length (steps p)" "status (steps p ! k) = PENDING"
  shows "can_activate x (activated p k) = can_activate x p"
  using assms by (simp add: can_activate_def dep_done_activated cong: list.pred_cong)

lemma next_step_loop_idem:
  assumes "drop i (steps p) = rest" "next_step_loop p s i rest = Inr (r, p', s')"
  shows "next_step_loop p' s' i (drop i (steps p')) = Inr (r, p', s')"
  using assms
proof (induction rest arbitrary: i)
  case Nil
  then show ?case by simp
next
  case (Cons step rest)
  note d = drop_ConsD [OF Cons.prems(1)]
  consider (act) "status step = PENDING" "can_activate step p"
    | (active) "status step = ACTIVE"
    | (skip) "status step \<noteq> ACTIVE" "\<not> (status step = PENDING \<and> can_activate step p)"
    by blast
  then show ?case
  proof cases
    case act
    with Cons.prems(2) d have r: "r = Some i" "p' = activated p i"
      by (auto simp: activate_def activated_def Let_def)
    have "drop i (steps p') = (step\<lparr>status := ACTIVE\<rparr>) # rest"
      using d by (simp add: r activated_def drop_update_swap Cons.prems(1))
    then show ?thesis using r by simp
  next
    case active
    with Cons.prems show ?thesis by simp
  next
    case skip
    with Cons.prems(2) have rec: "next_step_loop p s (Suc i) rest = Inr (r, p', s')"
      by (auto split: if_splits)
    from Cons.IH [OF d(3) rec]
    have ih: "next_step_loop p' s' (Suc i) (drop (Suc i) (steps p')) = Inr (r, p', s')" .
    from next_step_loop_result [OF d(3), of s] rec
    consider (same) "p' = p"
      | (new) k where "Suc i \<le> k" "k < length (steps p)" "can_activate (steps p ! k) p"
          "p' = activated p k"
      by auto
    then show ?thesis
    proof cases
      case same
      with ih skip Cons.prems(1) d(3) show ?thesis by auto
    next
      case new
      then have pend: "status (steps p ! k) = PENDING" by (simp add: can_activate_def)
      have "steps p' ! i = step" using new d by (simp add: activated_def)
      moreover have "i < length (steps p')" using new d by (simp add: activated_def)
      ultimately have dr: "drop i (steps p') = step # drop (Suc i) (steps p')"
        by (metis Cons_nth_drop_Suc)
      have "can_activate step p' = can_activate step p"
        using new pend by (simp add: can_activate_activated)
      with dr ih skip show ?thesis by auto
    qed
  qed
qed

text \<open>Calling \<^verbatim>\<open>next_step\<close> again, with no call between, returns the same step and
  changes nothing more.\<close>

lemma next_step_idempotent:
  assumes "next_step p s = Inr (r, p', s')"
  shows "next_step p' s' = Inr (r, p', s')"
proof (cases "halted s")
  case True
  with assms show ?thesis by (auto simp: next_step_def)
next
  case False
  with assms have l: "next_step_loop p s 0 (steps p) = Inr (r, p', s')"
    by (simp add: next_step_def)
  from next_step_result [of p s] assms have "halted s' = halted s" by auto
  with False next_step_loop_idem [OF _ l] show ?thesis by (simp add: next_step_def)
qed

subsection \<open>How each operation treats the steps and the halt flag\<close>

lemma next_step_high:
  assumes "next_step p s = Inr (r, p', s')"
    and "j < length (steps p)" "risk_level (steps p ! j) = HIGH" "status (steps p ! j) \<noteq> SKIPPED"
  shows "length (steps p') = length (steps p) \<and> risk_level (steps p' ! j) = HIGH
         \<and> status (steps p' ! j) \<noteq> SKIPPED"
  using next_step_result [of p s] assms
  by (auto simp: activated_def nth_update_if split: if_splits)

lemma update_state_high:
  assumes "update_state p s oc = Inr (p', s')"
    and "j < length (steps p)" "risk_level (steps p ! j) = HIGH" "status (steps p ! j) \<noteq> SKIPPED"
  shows "length (steps p') = length (steps p) \<and> risk_level (steps p' ! j) = HIGH
         \<and> status (steps p' ! j) \<noteq> SKIPPED"
  using assms
  by (auto simp: update_state_def Let_def complete_def fail_def nth_update_if
      split: option.splits if_splits sum.splits)

lemma revise_plan_high:
  assumes "revise_plan p s oc = Inr (p', s')"
    and "j < length (steps p)" "risk_level (steps p ! j) = HIGH" "status (steps p ! j) \<noteq> SKIPPED"
  shows "length (steps p') = length (steps p) \<and> risk_level (steps p' ! j) = HIGH
         \<and> status (steps p' ! j) \<noteq> SKIPPED"
  using assms
  by (auto simp: revise_plan_def Let_def reset_for_retry_def skip_def can_skip_def nth_update_if
      split: option.splits if_splits sum.splits)

lemma engine_call_high:
  assumes "engine_call p s c = Inr (rs, p', s')"
    and "j < length (steps p)" "risk_level (steps p ! j) = HIGH" "status (steps p ! j) \<noteq> SKIPPED"
  shows "length (steps p') = length (steps p) \<and> risk_level (steps p' ! j) = HIGH
         \<and> status (steps p' ! j) \<noteq> SKIPPED"
proof (cases c)
  case NextStep
  with assms(1) obtain r where "next_step p s = Inr (r, p', s')"
    by (auto split: sum.splits)
  from next_step_high [OF this assms(2-4)] show ?thesis .
next
  case (UpdateState oc)
  with assms(1) have "update_state p s oc = Inr (p', s')"
    by (auto split: sum.splits)
  from update_state_high [OF this assms(2-4)] show ?thesis .
next
  case (RevisePlan oc)
  with assms(1) have "revise_plan p s oc = Inr (p', s')"
    by (auto split: sum.splits)
  from revise_plan_high [OF this assms(2-4)] show ?thesis .
qed

lemma engine_call_halted:
  assumes "engine_call p s c = Inr (rs, p', s')" "halted s"
  shows "halted s' \<and> list_all (\<lambda>r. r = None) rs"
  using assms
  by (cases c)
     (auto simp: next_step_def update_state_def revise_plan_def Let_def
       split: option.splits if_splits sum.splits prod.splits)

lemma run_halted:
  assumes "run p s cs = Inr (rs, p', s')" "halted s"
  shows "halted s' \<and> list_all (\<lambda>r. r = None) rs"
  using assms
proof (induction cs arbitrary: p s rs)
  case Nil
  then show ?case by simp
next
  case (Cons c cs)
  from Cons.prems(1) obtain rs1 p1 s1 rs2 where
    c: "engine_call p s c = Inr (rs1, p1, s1)" and r: "run p1 s1 cs = Inr (rs2, p', s')"
    and rs: "rs = rs1 @ rs2"
    by (auto split: sum.splits)
  from engine_call_halted [OF c Cons.prems(2)] Cons.IH [OF r] rs show ?case by simp
qed

subsection \<open>Failure counts and statuses along a run\<close>

text \<open>No engine call lowers a failure count, and none makes a step PENDING or ACTIVE
  that has failed twice and is neither.\<close>

lemma next_step_retry:
  assumes "next_step p s = Inr (r, p', s')"
  shows "length (steps p') = length (steps p)
    \<and> failure_count (steps p' ! j) = failure_count (steps p ! j)
    \<and> (status (steps p ! j) \<noteq> PENDING \<longrightarrow> status (steps p' ! j) = status (steps p ! j))"
  using next_step_result [of p s] assms
  by (auto simp: activated_def nth_update_if can_activate_def split: if_splits)

lemma update_state_retry:
  assumes "update_state p s oc = Inr (p', s')"
  shows "length (steps p') = length (steps p)
    \<and> failure_count (steps p ! j) \<le> failure_count (steps p' ! j)
    \<and> (status (steps p ! j) \<noteq> ACTIVE \<longrightarrow> status (steps p' ! j) = status (steps p ! j))"
  using assms
  by (auto simp: update_state_def Let_def complete_def fail_def nth_update_if
      split: option.splits if_splits sum.splits)

lemma revise_plan_retry:
  assumes "revise_plan p s oc = Inr (p', s')"
  shows "length (steps p') = length (steps p)
    \<and> failure_count (steps p' ! j) = failure_count (steps p ! j)
    \<and> (status (steps p' ! j) = PENDING \<longrightarrow>
         status (steps p ! j) = PENDING \<or> failure_count (steps p ! j) = 1)
    \<and> (status (steps p' ! j) = ACTIVE \<longrightarrow> status (steps p ! j) = ACTIVE)"
  using assms
  by (auto simp: revise_plan_def Let_def reset_for_retry_def skip_def nth_update_if
      split: option.splits if_splits sum.splits)

lemma engine_call_retry:
  assumes "engine_call p s c = Inr (rs, p', s')"
  shows "length (steps p') = length (steps p)
    \<and> failure_count (steps p ! j) \<le> failure_count (steps p' ! j)
    \<and> (2 \<le> failure_count (steps p ! j) \<and> status (steps p ! j) \<noteq> PENDING
          \<and> status (steps p ! j) \<noteq> ACTIVE \<longrightarrow>
        status (steps p' ! j) \<noteq> PENDING \<and> status (steps p' ! j) \<noteq> ACTIVE)"
proof (cases c)
  case NextStep
  with assms obtain r where "next_step p s = Inr (r, p', s')"
    by (auto split: sum.splits)
  from next_step_retry [OF this, of j] show ?thesis by auto
next
  case (UpdateState oc)
  with assms have "update_state p s oc = Inr (p', s')"
    by (auto split: sum.splits)
  from update_state_retry [OF this, of j] show ?thesis by auto
next
  case (RevisePlan oc)
  with assms have "revise_plan p s oc = Inr (p', s')"
    by (auto split: sum.splits)
  from revise_plan_retry [OF this, of j] show ?thesis by auto
qed

lemma run_retry:
  assumes "run p s cs = Inr (rs, p', s')"
  shows "failure_count (steps p ! j) \<le> failure_count (steps p' ! j)
    \<and> (2 \<le> failure_count (steps p ! j) \<and> status (steps p ! j) \<noteq> PENDING
          \<and> status (steps p ! j) \<noteq> ACTIVE \<longrightarrow>
        2 \<le> failure_count (steps p' ! j) \<and> status (steps p' ! j) \<noteq> PENDING
          \<and> status (steps p' ! j) \<noteq> ACTIVE)"
  using assms
proof (induction cs arbitrary: p s rs)
  case Nil
  then show ?case by simp
next
  case (Cons c cs)
  from Cons.prems obtain rs1 p1 s1 rs2 where
    c: "engine_call p s c = Inr (rs1, p1, s1)" and r: "run p1 s1 cs = Inr (rs2, p', s')"
    by (auto split: sum.splits)
  from engine_call_retry [OF c, of j] Cons.IH [OF r] show ?case by force
qed

subsection \<open>The artifact log's serialisation and files\<close>










lemma append_less_iff: "(p @ x < p @ y) = (x < (y :: string))"
  by (induction p) simp_all

lemma stem_json: "aid \<noteq> [] \<Longrightarrow> stem (aid @ ''.json'') = aid"
  by (simp add: stem_def)

lemma update_key_in: "k \<in> set (map fst (AList.update k v al))"
  by (simp add: update_keys)

lemma prefix_same_length: "length pid = length q \<Longrightarrow> prefix pid (q @ x) = (pid = q)"
  by (auto simp: prefix_def append_eq_append_conv)

lemma finalize_active:
  "map_of (active_artifacts (snd (finalize outside log aid final now))) aid = None"
  by (auto simp: finalize_def write_text_def Let_def delete_conv
      split: option.splits sum.splits prod.splits if_splits)

lemma finalize_listed:
  assumes "finalize outside log aid final now = (Inr (Some path), log')"
    and "aid \<noteq> []" "CHR ''/'' \<notin> set aid"
  shows "aid \<in> set (list_artifacts log' None) \<and> path = output_dir log @ ''/'' @ aid @ ''.json''
    \<and> map_of (files log') (aid @ ''.json'') \<noteq> None"
proof -
  from assms(1,3) obtain doc where
    f: "files log' = AList.update (aid @ ''.json'') doc (files log)"
    and p: "path = output_dir log @ ''/'' @ aid @ ''.json''"
    by (auto simp: finalize_def write_text_def Let_def
        split: option.splits sum.splits prod.splits if_splits)
  have "aid @ ''.json'' \<in> set (glob_json log')"
    unfolding glob_json_def f using update_key_in [of "aid @ ''.json''" doc "files log"]
    by (simp add: suffix_def)
  then have "stem (aid @ ''.json'') \<in> set (list_artifacts log' None)"
    by (simp add: list_artifacts_def)
  with assms(2) p f show ?thesis by (simp add: stem_json update_conv)
qed

lemma filter_listing:
  "filter (\<lambda>a. a = pid @ x) (list_artifacts log (Some pid))
   = filter (\<lambda>a. a = pid @ x) (list_artifacts log None)"
proof -
  have "filter (\<lambda>a. a = pid @ x) (filter (prefix pid) ys) = filter (\<lambda>a. a = pid @ x) ys"
    for ys :: "string list"
    by (induction ys) auto
  then show ?thesis
    by (simp add: list_artifacts_def rev_filter [symmetric] filter_sort del: filter_filter)
qed

lemma listing_filtered:
  "list_artifacts log (Some pid) = filter (prefix pid) (list_artifacts log None)"
  by (simp add: list_artifacts_def rev_filter [symmetric] filter_sort)

lemma subseq_listing: "subseq (list_artifacts log (Some pid)) (list_artifacts log None)"
  by (simp add: listing_filtered)


text \<open>Scenario C with no revision ends in \<open>both_failed\<close> and \<open>halted_state\<close>.\<close>

lemma scenario_c_end:
  "run pair_plan fresh_state
     [NextStep, UpdateState (failed ''a''), NextStep, UpdateState (failed ''b'')]
   = Inr ([Some 0, Some 1], both_failed, halted_state)"
  by code_simp

text \<open>The run of scenario A on the HIGH-risk plan raises nowhere.\<close>

lemma scenario_a_total:
  "\<exists>rs p' s'. run (linear_plan HIGH) fresh_state (scenario_a (succeeded ''a'') (failed ''b''))
      = Inr (rs, p', s')"
  by (simp add: engine_defs lifecycle_defs test_defs)

subsection \<open>The claims\<close>

text \<open>
  C1. Single-in-flight dispatch: while a step is ACTIVE, \<^verbatim>\<open>next_step\<close> is to return
  that step and activate no other, so that at most one step is ACTIVE at a time.
  The loop of \<^verbatim>\<open>next_step\<close> returns the first step in list order that is ACTIVE
  or ready, so a ready PENDING step that stands before the ACTIVE one is activated
  and returned. In a plan of two independent steps: \<open>a\<close> is dispatched and
  fails, \<open>b\<close> is dispatched, the revision of \<open>a\<close>'s failure resets \<open>a\<close>, and
  the next call dispatches \<open>a\<close> while \<open>b\<close> is still ACTIVE. The same on a plan
  that is handed over with \<open>a\<close> PENDING and \<open>b\<close> ACTIVE. (That two calls in
  a row return the same step is \<open>next_step_idempotent\<close> above.)
\<close>

theorem next_step_double_dispatch:
  "summary (run pair_plan fresh_state
              [NextStep, UpdateState (failed ''a''), NextStep, RevisePlan (failed ''a''), NextStep])
     = Inr ([Some 0, Some 1, Some 0], [(ACTIVE, 1), (ACTIVE, 0)], 0, False)
   \<and> summary (engine_call
        (new_plan [new_step ''a'' [] LOW, (new_step ''b'' [] LOW)\<lparr>status := ACTIVE\<rparr>])
        fresh_state NextStep)
     = Inr ([Some 0], [(ACTIVE, 0), (ACTIVE, 0)], 0, False)"
  by (simp add: engine_defs lifecycle_defs test_defs)

text \<open>
  C2, as amended. Scenario A: in a linear plan \<open>a\<close>, \<open>b\<close>, \<open>c\<close> (\<open>b\<close> depends
  on \<open>a\<close>, \<open>c\<close> on \<open>b\<close>) where \<open>a\<close> succeeds and \<open>b\<close> fails twice, with
  the revision policy applied after each failure, \<open>a\<close> ends DONE, \<open>b\<close> ends
  SKIPPED unless its risk level is HIGH (then it stays FAILED), and the run is
  halted by \<open>b\<close>'s second failure whatever the risk level. \<open>c\<close> is never
  activated: it stays PENDING, the last \<^verbatim>\<open>next_step\<close> returns \<open>None\<close>, and
  \<^verbatim>\<open>can_activate\<close> does not hold for it, since \<open>b\<close> is not DONE.
\<close>

theorem scenario_a_run:
  assumes "steps p = [a, b, c]"
    and "distinct [step_id a, step_id b, step_id c]"
    and "dependencies a = []" "dependencies b = [step_id a]" "dependencies c = [step_id b]"
    and "status a = PENDING" "status b = PENDING" "status c = PENDING"
    and "failure_count b = 0"
    and "\<not> halted s"
    and "o_step_id oa = step_id a" "success oa"
    and "o_step_id fb = step_id b" "\<not> success fb"
  shows "\<exists>p' s'. run p s (scenario_a oa fb) = Inr ([Some 0, Some 1, Some 1, None], p', s')
         \<and> map status (steps p') = [DONE, if risk_level b = HIGH then FAILED else SKIPPED, PENDING]
         \<and> halted s' \<and> \<not> can_activate (steps p' ! 2) p'"
  using assms
  by (simp add: engine_defs lifecycle_defs scenario_a_def)

theorem scenario_a_run_witness:
  "steps (linear_plan HIGH) =
     [new_step ''a'' [] LOW, new_step ''b'' [''a''] HIGH, new_step ''c'' [''b''] LOW]
   \<and> \<not> halted fresh_state \<and> success (succeeded ''a'') \<and> \<not> success (failed ''b'')
   \<and> (\<exists>p' s'. run (linear_plan HIGH) fresh_state (scenario_a (succeeded ''a'') (failed ''b''))
                  = Inr ([Some 0, Some 1, Some 1, None], p', s')
         \<and> map status (steps p') = [DONE, FAILED, PENDING]
         \<and> halted s' \<and> \<not> can_activate (steps p' ! 2) p')"
proof -
  have "steps (linear_plan HIGH) =
     [new_step ''a'' [] LOW, new_step ''b'' [''a''] HIGH, new_step ''c'' [''b''] LOW]"
    by (simp add: linear_plan_def new_plan_def)
  from scenario_a_run [OF this, of fresh_state "succeeded ''a''" "failed ''b''"]
  show ?thesis
    by (simp add: new_step_def new_plan_def fresh_state_def succeeded_def failed_def
        linear_plan_def)
qed

text \<open>The claim as it was stated fails where \<open>b\<close> is of MED risk: \<open>b\<close> is
  SKIPPED, yet \<open>c\<close> is PENDING at the end and the last \<^verbatim>\<open>next_step\<close> returns
  \<open>None\<close>.\<close>

theorem scenario_a_c_never_activated:
  "summary (run (linear_plan MED) fresh_state (scenario_a (succeeded ''a'') (failed ''b'')))
     = Inr ([Some 0, Some 1, Some 1, None], [(DONE, 0), (SKIPPED, 2), (PENDING, 0)], 1, True)"
  by (simp add: engine_defs lifecycle_defs test_defs)

text \<open>
  C3, as amended. Scenario C, the global volatility guard: in a plan of two
  independent steps, when \<open>a\<close> fails once and then \<open>b\<close> fails once, with no
  success and no \<^verbatim>\<open>revise_plan\<close> between the two \<^verbatim>\<open>update_state\<close> calls,
  \<^verbatim>\<open>consecutive_failures\<close> reaches 2 and the second \<^verbatim>\<open>update_state\<close> sets
  \<^verbatim>\<open>halted\<close>, although each step failed once, below the retry ceiling; the run
  is not halted after the first failure. When \<^verbatim>\<open>revise_plan\<close> is applied to the
  first failure before the second arrives, it resets \<^verbatim>\<open>consecutive_failures\<close> to
  0, the second failure brings it to 1, and the run is not halted.
\<close>

theorem scenario_c_run:
  assumes "steps p = [a, b]"
    and "step_id a \<noteq> step_id b"
    and "dependencies a = []" "dependencies b = []"
    and "status a = PENDING" "status b = PENDING"
    and "failure_count a = 0" "failure_count b = 0"
    and "\<not> halted s" "consecutive_failures s = 0"
    and "o_step_id fa = step_id a" "\<not> success fa"
    and "o_step_id fb = step_id b" "\<not> success fb"
  shows "summary (run p s [NextStep, UpdateState fa, NextStep, UpdateState fb])
           = Inr ([Some 0, Some 1], [(FAILED, 1), (FAILED, 1)], 2, True)
    \<and> summary (run p s [NextStep, UpdateState fa])
           = Inr ([Some 0], [(FAILED, 1), (PENDING, 0)], 1, False)
    \<and> summary (run p s [NextStep, UpdateState fa, NextStep, RevisePlan fa, UpdateState fb])
           = Inr ([Some 0, Some 1], [(PENDING, 1), (FAILED, 1)], 1, False)
    \<and> 1 < retry_ceiling"
  using assms
  by (simp add: engine_defs lifecycle_defs summary_def)

theorem scenario_c_run_witness:
  "steps pair_plan = [new_step ''a'' [] LOW, new_step ''b'' [] LOW]
   \<and> \<not> halted fresh_state \<and> consecutive_failures fresh_state = 0
   \<and> \<not> success (failed ''a'') \<and> \<not> success (failed ''b'')
   \<and> summary (run pair_plan fresh_state
                 [NextStep, UpdateState (failed ''a''), NextStep, UpdateState (failed ''b'')])
        = Inr ([Some 0, Some 1], [(FAILED, 1), (FAILED, 1)], 2, True)
   \<and> summary (run pair_plan fresh_state [NextStep, UpdateState (failed ''a'')])
        = Inr ([Some 0], [(FAILED, 1), (PENDING, 0)], 1, False)"
proof -
  have "steps pair_plan = [new_step ''a'' [] LOW, new_step ''b'' [] LOW]"
    by (simp add: pair_plan_def new_plan_def)
  from scenario_c_run [OF this, of fresh_state "failed ''a''" "failed ''b''"]
  show ?thesis
    by (simp add: new_step_def new_plan_def fresh_state_def failed_def pair_plan_def)
qed

text \<open>The claim as it was stated, with the revision policy applied between the two
  failures, fails: \<^verbatim>\<open>consecutive_failures\<close> ends at 1 and the run is not halted.\<close>

theorem scenario_c_revision_resets_guard:
  "summary (run pair_plan fresh_state
              [NextStep, UpdateState (failed ''a''), NextStep, RevisePlan (failed ''a''),
               UpdateState (failed ''b'')])
     = Inr ([Some 0, Some 1], [(PENDING, 1), (FAILED, 1)], 1, False)"
  by (simp add: engine_defs lifecycle_defs test_defs)

text \<open>
  C4. Halt monotonicity: once \<^verbatim>\<open>state.halted\<close> is true, \<^verbatim>\<open>next_step\<close> returns
  \<open>None\<close> (and changes nothing), and neither \<^verbatim>\<open>update_state\<close> nor
  \<^verbatim>\<open>revise_plan\<close> sets \<^verbatim>\<open>halted\<close> back to false; so along every sequence of
  engine calls from a halted state, the state stays halted and every
  \<^verbatim>\<open>next_step\<close> returns \<open>None\<close>.
\<close>

theorem halt_monotone:
  assumes "halted s"
  shows "next_step p s = Inr (None, p, s)
    \<and> (\<forall>oc p' s'. update_state p s oc = Inr (p', s') \<longrightarrow> halted s')
    \<and> (\<forall>oc p' s'. revise_plan p s oc = Inr (p', s') \<longrightarrow> halted s')
    \<and> (\<forall>cs rs p' s'. run p s cs = Inr (rs, p', s') \<longrightarrow>
          halted s' \<and> list_all (\<lambda>r. r = None) rs)"
proof -
  have "next_step p s = Inr (None, p, s)" using assms by (simp add: next_step_def)
  moreover have "halted s'" if "update_state p s oc = Inr (p', s')" for oc p' s'
    using engine_call_halted [of p s "UpdateState oc" "[]" p' s'] that assms by simp
  moreover have "halted s'" if "revise_plan p s oc = Inr (p', s')" for oc p' s'
    using engine_call_halted [of p s "RevisePlan oc" "[]" p' s'] that assms by simp
  ultimately show ?thesis using run_halted [OF _ assms] by blast
qed

theorem halt_monotone_witness:
  "halted (fresh_state\<lparr>halted := True\<rparr>)
   \<and> next_step pair_plan (fresh_state\<lparr>halted := True\<rparr>)
       = Inr (None, pair_plan, fresh_state\<lparr>halted := True\<rparr>)
   \<and> (\<exists>p' s'. update_state (activated pair_plan 0) (fresh_state\<lparr>halted := True\<rparr>) (succeeded ''a'')
                  = Inr (p', s') \<and> halted s')
   \<and> (\<exists>rs p' s'. run (activated pair_plan 0) (fresh_state\<lparr>halted := True\<rparr>)
                    [NextStep, UpdateState (succeeded ''a''), NextStep] = Inr (rs, p', s')
                  \<and> halted s' \<and> list_all (\<lambda>r. r = None) rs)"
proof -
  have h: "halted (fresh_state\<lparr>halted := True\<rparr>)" by simp
  have u: "\<exists>p' s'. update_state (activated pair_plan 0) (fresh_state\<lparr>halted := True\<rparr>)
              (succeeded ''a'') = Inr (p', s')"
    by (simp add: engine_defs lifecycle_defs test_defs activated_def)
  have r: "\<exists>rs p' s'. run (activated pair_plan 0) (fresh_state\<lparr>halted := True\<rparr>)
              [NextStep, UpdateState (succeeded ''a''), NextStep] = Inr (rs, p', s')"
    by (simp add: engine_defs lifecycle_defs test_defs activated_def)
  from u obtain p1 s1 where u1:
    "update_state (activated pair_plan 0) (fresh_state\<lparr>halted := True\<rparr>) (succeeded ''a'')
       = Inr (p1, s1)"
    by blast
  from r obtain rs2 p2 s2 where r1:
    "run (activated pair_plan 0) (fresh_state\<lparr>halted := True\<rparr>)
       [NextStep, UpdateState (succeeded ''a''), NextStep] = Inr (rs2, p2, s2)"
    by blast
  note hm = halt_monotone [OF h, of "activated pair_plan 0"]
  have "halted s1"
    by (rule hm [THEN conjunct2, THEN conjunct1, rule_format, OF u1])
  moreover have "halted s2 \<and> list_all (\<lambda>r. r = None) rs2"
    by (rule hm [THEN conjunct2, THEN conjunct2, THEN conjunct2, rule_format, OF r1])
  moreover from halt_monotone [OF h, of pair_plan]
  have "next_step pair_plan (fresh_state\<lparr>halted := True\<rparr>)
       = Inr (None, pair_plan, fresh_state\<lparr>halted := True\<rparr>)"
    by (rule conjunct1)
  ultimately show ?thesis using h u1 r1 by blast
qed

text \<open>
  C5. Retry ceiling. When the step of the failure outcome has a failure count
  that is not 1, and is not 2 with a step that can be skipped, \<^verbatim>\<open>revise_plan\<close>
  returns the plan as it was and changes nothing of the state (no status, no
  \<^verbatim>\<open>revision_count\<close>, no \<^verbatim>\<open>version\<close>); and whenever that failure count is not
  1, no step is PENDING after \<^verbatim>\<open>revise_plan\<close> that was not PENDING before.
  Along every sequence of engine calls: a second failure leaves the step FAILED
  with a failure count of 2; \<^verbatim>\<open>revise_plan\<close> changes no failure count, so the
  retry keeps it, and no call lowers one;
  and a step that has failed twice and is neither PENDING nor ACTIVE is never
  PENDING or ACTIVE again, so it is not reset and not dispatched a third time.
\<close>

theorem revise_plan_retry_ceiling:
  "(\<forall>i. get_step p (o_step_id failure) = Some i \<and> failure_count (steps p ! i) \<noteq> 1
          \<and> \<not> (failure_count (steps p ! i) = 2 \<and> can_skip (steps p ! i)) \<longrightarrow>
        revise_plan p s failure = Inr (p, s))
   \<and> (\<forall>i p' s' j. get_step p (o_step_id failure) = Some i \<and> failure_count (steps p ! i) \<noteq> 1
          \<and> revise_plan p s failure = Inr (p', s') \<and> status (steps p' ! j) = PENDING \<longrightarrow>
        status (steps p ! j) = PENDING)
   \<and> (\<forall>i p' s'. update_state p s failure = Inr (p', s') \<and> \<not> success failure
          \<and> get_step p (o_step_id failure) = Some i \<and> failure_count (steps p ! i) = 1 \<longrightarrow>
        failure_count (steps p' ! i) = 2 \<and> status (steps p' ! i) = FAILED)
   \<and> (\<forall>p' s' j. revise_plan p s failure = Inr (p', s') \<longrightarrow>
        failure_count (steps p' ! j) = failure_count (steps p ! j))
   \<and> (\<forall>cs rs p' s' j. run p s cs = Inr (rs, p', s') \<longrightarrow>
        failure_count (steps p ! j) \<le> failure_count (steps p' ! j))
   \<and> (\<forall>cs rs p' s' j. run p s cs = Inr (rs, p', s') \<and> 2 \<le> failure_count (steps p ! j)
          \<and> status (steps p ! j) \<noteq> PENDING \<and> status (steps p ! j) \<noteq> ACTIVE \<longrightarrow>
        2 \<le> failure_count (steps p' ! j) \<and> status (steps p' ! j) \<noteq> PENDING
          \<and> status (steps p' ! j) \<noteq> ACTIVE)"
proof -
  have frame: "revise_plan p s failure = Inr (p, s)"
    if "get_step p (o_step_id failure) = Some i" "failure_count (steps p ! i) \<noteq> 1"
      "\<not> (failure_count (steps p ! i) = 2 \<and> can_skip (steps p ! i))" for i
    using that by (auto simp: revise_plan_def Let_def)
  have pending: "status (steps p ! j) = PENDING"
    if "get_step p (o_step_id failure) = Some i" "failure_count (steps p ! i) \<noteq> 1"
      "revise_plan p s failure = Inr (p', s')" "status (steps p' ! j) = PENDING" for i p' s' j
    using that
    by (auto simp: revise_plan_def Let_def skip_def nth_update_if split: if_splits)
  have second: "failure_count (steps p' ! i) = 2 \<and> status (steps p' ! i) = FAILED"
    if "update_state p s failure = Inr (p', s')" "\<not> success failure"
      "get_step p (o_step_id failure) = Some i" "failure_count (steps p ! i) = 1" for i p' s'
    using that get_step_less [OF that(3)]
    by (auto simp: update_state_def Let_def fail_def split: if_splits)
  have keep: "failure_count (steps p' ! j) = failure_count (steps p ! j)"
    if "revise_plan p s failure = Inr (p', s')" for p' s' j
    using revise_plan_retry [OF that, of j] by simp
  show ?thesis
    using frame pending second keep run_retry [of p s] by blast
qed

text \<open>Witness: in \<open>twice_failed HIGH\<close> step \<open>a\<close> has failed three times and step
  \<open>b\<close>, of HIGH risk, twice; in \<open>retrying\<close> the step fails for the second time.\<close>

theorem revise_plan_retry_ceiling_witness:
  "get_step (twice_failed HIGH) (o_step_id (failed ''b'')) = Some 1
   \<and> failure_count (steps (twice_failed HIGH) ! 1) = 2
   \<and> \<not> can_skip (steps (twice_failed HIGH) ! 1)
   \<and> status (steps (twice_failed HIGH) ! 1) = FAILED
   \<and> revise_plan (twice_failed HIGH) fresh_state (failed ''b'')
       = Inr (twice_failed HIGH, fresh_state)
   \<and> get_step (twice_failed HIGH) (o_step_id (failed ''a'')) = Some 0
   \<and> failure_count (steps (twice_failed HIGH) ! 0) = 3
   \<and> revise_plan (twice_failed HIGH) fresh_state (failed ''a'')
       = Inr (twice_failed HIGH, fresh_state)
   \<and> (\<exists>p' s'. update_state retrying fresh_state (failed ''a'') = Inr (p', s')
         \<and> failure_count (steps p' ! 0) = 2 \<and> status (steps p' ! 0) = FAILED)
   \<and> (\<exists>rs p' s'. run (twice_failed HIGH) fresh_state
                     [RevisePlan (failed ''b''), NextStep, RevisePlan (failed ''b''), NextStep]
                    = Inr (rs, p', s')
         \<and> 2 \<le> failure_count (steps p' ! 1) \<and> status (steps p' ! 1) \<noteq> PENDING
         \<and> status (steps p' ! 1) \<noteq> ACTIVE)"
proof -
  have b: "get_step (twice_failed HIGH) (o_step_id (failed ''b'')) = Some 1"
    and a: "get_step (twice_failed HIGH) (o_step_id (failed ''a'')) = Some 0"
    by (simp_all add: get_step_def twice_failed_def test_defs)
  have f: "failure_count (steps (twice_failed HIGH) ! 1) = 2"
    "\<not> can_skip (steps (twice_failed HIGH) ! 1)"
    "failure_count (steps (twice_failed HIGH) ! 0) = 3"
    "status (steps (twice_failed HIGH) ! 1) = FAILED"
    by (simp_all add: twice_failed_def test_defs can_skip_def)
  have f2: "2 \<le> failure_count (steps (twice_failed HIGH) ! 1)"
    "status (steps (twice_failed HIGH) ! 1) \<noteq> PENDING"
    "status (steps (twice_failed HIGH) ! 1) \<noteq> ACTIVE"
    by (simp_all add: twice_failed_def test_defs)
  have g: "get_step retrying (o_step_id (failed ''a'')) = Some 0"
    "failure_count (steps retrying ! 0) = 1" "\<not> success (failed ''a'')"
    by (simp_all add: get_step_def retrying_def test_defs)
  obtain p1 s1 where u: "update_state retrying fresh_state (failed ''a'') = Inr (p1, s1)"
    by (simp add: engine_defs lifecycle_defs retrying_def test_defs)
  obtain rs p2 s2 where r:
    "run (twice_failed HIGH) fresh_state
       [RevisePlan (failed ''b''), NextStep, RevisePlan (failed ''b''), NextStep]
     = Inr (rs, p2, s2)"
    by (simp add: engine_defs lifecycle_defs twice_failed_def test_defs)
  note t = revise_plan_retry_ceiling [of "twice_failed HIGH" "failed ''b''" fresh_state]
  note ta = revise_plan_retry_ceiling [of "twice_failed HIGH" "failed ''a''" fresh_state]
  note tr = revise_plan_retry_ceiling [of retrying "failed ''a''" fresh_state]
  have 1: "revise_plan (twice_failed HIGH) fresh_state (failed ''b'')
       = Inr (twice_failed HIGH, fresh_state)"
    using t [THEN conjunct1, THEN spec, of 1] b f by simp
  have 2: "revise_plan (twice_failed HIGH) fresh_state (failed ''a'')
       = Inr (twice_failed HIGH, fresh_state)"
    using ta [THEN conjunct1, THEN spec, of 0] a f by simp
  have 3: "failure_count (steps p1 ! 0) = 2 \<and> status (steps p1 ! 0) = FAILED"
    using tr [THEN conjunct2, THEN conjunct2, THEN conjunct1] u g by blast
  have 4: "2 \<le> failure_count (steps p2 ! 1) \<and> status (steps p2 ! 1) \<noteq> PENDING
         \<and> status (steps p2 ! 1) \<noteq> ACTIVE"
    using t [THEN conjunct2, THEN conjunct2, THEN conjunct2, THEN conjunct2, THEN conjunct2]
      r f2 by blast
  from u 3 have 5: "\<exists>p' s'. update_state retrying fresh_state (failed ''a'') = Inr (p', s')
         \<and> failure_count (steps p' ! 0) = 2 \<and> status (steps p' ! 0) = FAILED"
    by (intro exI conjI) auto
  from r 4 have 6: "\<exists>rs p' s'. run (twice_failed HIGH) fresh_state
                     [RevisePlan (failed ''b''), NextStep, RevisePlan (failed ''b''), NextStep]
                    = Inr (rs, p', s')
         \<and> 2 \<le> failure_count (steps p' ! 1) \<and> status (steps p' ! 1) \<noteq> PENDING
         \<and> status (steps p' ! 1) \<noteq> ACTIVE"
    by (intro exI conjI) auto
  from a b f 1 2 5 6 show ?thesis by (intro conjI)
qed

text \<open>
  C6. Skip safety: a step of HIGH risk that is not SKIPPED is not SKIPPED after any
  sequence of engine calls (\<^verbatim>\<open>next_step\<close>, \<^verbatim>\<open>update_state\<close>, \<^verbatim>\<open>revise_plan\<close>),
  whatever its failure count, and its risk level stays HIGH; \<^verbatim>\<open>revise_plan\<close>
  skips only under \<^verbatim>\<open>can_skip\<close>, and \<^verbatim>\<open>can_skip\<close> holds exactly when the risk
  level is not HIGH.
\<close>

theorem skip_safety:
  assumes "run p s cs = Inr (rs, p', s')"
    and "j < length (steps p)" "risk_level (steps p ! j) = HIGH" "status (steps p ! j) \<noteq> SKIPPED"
  shows "risk_level (steps p' ! j) = HIGH \<and> status (steps p' ! j) \<noteq> SKIPPED
         \<and> (\<forall>step. can_skip step = (risk_level step \<noteq> HIGH))"
  using assms
proof (induction cs arbitrary: p s rs)
  case Nil
  then show ?case by (simp add: can_skip_def)
next
  case (Cons c cs)
  from Cons.prems(1) obtain rs1 p1 s1 rs2 where
    c: "engine_call p s c = Inr (rs1, p1, s1)" and r: "run p1 s1 cs = Inr (rs2, p', s')"
    by (auto split: sum.splits)
  from engine_call_high [OF c Cons.prems(2-4)] Cons.prems(2) have
    "j < length (steps p1)" "risk_level (steps p1 ! j) = HIGH" "status (steps p1 ! j) \<noteq> SKIPPED"
    by simp_all
  from Cons.IH [OF r this] show ?case .
qed

theorem skip_safety_witness:
  "(1::nat) < length (steps (linear_plan HIGH))
   \<and> risk_level (steps (linear_plan HIGH) ! 1) = HIGH
   \<and> status (steps (linear_plan HIGH) ! 1) \<noteq> SKIPPED
   \<and> (\<exists>rs p' s'. run (linear_plan HIGH) fresh_state (scenario_a (succeeded ''a'') (failed ''b''))
                    = Inr (rs, p', s')
         \<and> risk_level (steps p' ! 1) = HIGH \<and> status (steps p' ! 1) \<noteq> SKIPPED)"
proof -
  have h: "(1::nat) < length (steps (linear_plan HIGH))"
    "risk_level (steps (linear_plan HIGH) ! 1) = HIGH"
    "status (steps (linear_plan HIGH) ! 1) \<noteq> SKIPPED"
    by (simp_all add: test_defs)
  obtain rs p' s' where
    r: "run (linear_plan HIGH) fresh_state (scenario_a (succeeded ''a'') (failed ''b''))
          = Inr (rs, p', s')"
    using scenario_a_total by blast
  from skip_safety [OF r h] r h show ?thesis by blast
qed

text \<open>
  C7. Unknown references are no-ops with an absent result, never errors:
  \<^verbatim>\<open>update_state\<close> with an outcome whose step identifier is not in the plan
  returns the state (and the plan) unchanged; \<^verbatim>\<open>record_step\<close> with an artifact
  identifier that is not active changes nothing; \<^verbatim>\<open>finalize\<close> with such an
  identifier returns \<open>None\<close> and changes nothing; and once \<^verbatim>\<open>finalize\<close> was
  called for an identifier, whatever it returned or raised, the identifier is no
  longer active, so a later \<^verbatim>\<open>record_step\<close> with it is a no-op (scenario D),
  and a later \<^verbatim>\<open>finalize\<close> returns \<open>None\<close>.
\<close>

theorem unknown_reference_noop:
  "(get_step p (o_step_id outcome) = None \<longrightarrow> update_state p s outcome = Inr (p, s))
   \<and> (map_of (active_artifacts log) aid = None \<longrightarrow>
        record_step sha log aid sid spec_json outcome_text diff ms touched now = log
        \<and> finalize outside log aid final now = (Inr None, log))
   \<and> (\<forall>r log'. finalize outside log aid final now = (r, log') \<longrightarrow>
        map_of (active_artifacts log') aid = None
        \<and> record_step sha log' aid sid spec_json outcome_text diff ms touched now' = log'
        \<and> finalize outside' log' aid final' now' = (Inr None, log'))"
proof -
  have u: "update_state p s outcome = Inr (p, s)" if "get_step p (o_step_id outcome) = None"
    using that by (simp add: update_state_def)
  have n: "record_step sha l aid sid spec_json outcome_text diff ms touched t = l
      \<and> finalize out l aid fin t = (Inr None, l)"
    if "map_of (active_artifacts l) aid = None" for l out fin t
    using that by (simp add: record_step_def finalize_def)
  have "map_of (active_artifacts log') aid = None
      \<and> record_step sha log' aid sid spec_json outcome_text diff ms touched now' = log'
      \<and> finalize outside' log' aid final' now' = (Inr None, log')"
    if "finalize outside log aid final now = (r, log')" for r log'
  proof -
    from that have "log' = snd (finalize outside log aid final now)" by simp
    then have "map_of (active_artifacts log') aid = None" by (simp add: finalize_active)
    with n [where l = log' and out = outside' and fin = final' and t = now']
    show ?thesis by simp
  qed
  with u n [where l = log and out = outside and fin = final and t = now]
  show ?thesis by blast
qed

text \<open>Witness: an outcome for a step \<open>z\<close> that is not in the plan; a log with
  nothing active; and the log after plan \<open>p\<close> was started, then finalized.\<close>

theorem unknown_reference_noop_witness:
  "get_step pair_plan (o_step_id (failed ''z'')) = None
   \<and> update_state pair_plan fresh_state (failed ''z'') = Inr (pair_plan, fresh_state)
   \<and> map_of (active_artifacts example_log) ''p_20260101_000000'' = None
   \<and> record_step (\<lambda>d. d) example_log ''p_20260101_000000'' ''a'' ''{}'' ''{}'' ''diff'' 5 None ''t''
       = example_log
   \<and> finalize no_outside example_log ''p_20260101_000000'' ''failed'' ''t''
       = (Inr None, example_log)
   \<and> (\<exists>path log'. finalize no_outside (started ''p'' ''20260101_000000'' (new_log ''out''))
                      ''p_20260101_000000'' ''success'' ''end'' = (Inr (Some path), log')
         \<and> map_of (active_artifacts log') ''p_20260101_000000'' = None
         \<and> record_step (\<lambda>d. d) log' ''p_20260101_000000'' ''a'' ''{}'' ''{}'' ''diff'' 5 None ''t''
             = log'
         \<and> finalize no_outside log' ''p_20260101_000000'' ''failed'' ''t'' = (Inr None, log'))"
proof -
  have g: "get_step pair_plan (o_step_id (failed ''z'')) = None"
    by (simp add: get_step_def test_defs)
  have m: "map_of (active_artifacts example_log) ''p_20260101_000000'' = None"
    by code_simp
  obtain path log' where
    f: "finalize no_outside (started ''p'' ''20260101_000000'' (new_log ''out''))
          ''p_20260101_000000'' ''success'' ''end'' = (Inr (Some path), log')"
    by (simp add: finalize_def write_text_def to_json_def to_dict_def dump_item_def
        started_def record_plan_start_def new_log_def new_plan_def bind_err_def Let_def)
  note a = unknown_reference_noop [where p = pair_plan and outcome = "failed ''z''"
      and s = fresh_state and log = example_log and aid = "''p_20260101_000000''"
      and sha = "\<lambda>d. d" and sid = "''a''" and spec_json = "''{}''"
      and outcome_text = "''{}''" and diff = "''diff''" and ms = 5 and touched = None
      and now = "''t''" and outside = no_outside and final = "''failed''"]
  note b = unknown_reference_noop [where p = pair_plan and outcome = "failed ''z''"
      and s = fresh_state and log = "started ''p'' ''20260101_000000'' (new_log ''out'')"
      and aid = "''p_20260101_000000''"
      and sha = "\<lambda>d. d" and sid = "''a''" and spec_json = "''{}''"
      and outcome_text = "''{}''" and diff = "''diff''" and ms = 5 and touched = None
      and now = "''end''" and outside = no_outside and final = "''success''"
      and now' = "''t''" and outside' = no_outside and final' = "''failed''"]
  from a [THEN conjunct1, rule_format, OF g] have 1:
    "update_state pair_plan fresh_state (failed ''z'') = Inr (pair_plan, fresh_state)" .
  from a [THEN conjunct2, THEN conjunct1, rule_format, OF m] have 2:
    "record_step (\<lambda>d. d) example_log ''p_20260101_000000'' ''a'' ''{}'' ''{}'' ''diff'' 5 None ''t''
       = example_log"
    "finalize no_outside example_log ''p_20260101_000000'' ''failed'' ''t''
       = (Inr None, example_log)"
    by simp_all
  from b [THEN conjunct2, THEN conjunct2, rule_format, OF f] have 3:
    "map_of (active_artifacts log') ''p_20260101_000000'' = None"
    "record_step (\<lambda>d. d) log' ''p_20260101_000000'' ''a'' ''{}'' ''{}'' ''diff'' 5 None ''t'' = log'"
    "finalize no_outside log' ''p_20260101_000000'' ''failed'' ''t'' = (Inr None, log')"
    by simp_all
  from f 3 have 4: "\<exists>path log'. finalize no_outside (started ''p'' ''20260101_000000'' (new_log ''out''))
                      ''p_20260101_000000'' ''success'' ''end'' = (Inr (Some path), log')
         \<and> map_of (active_artifacts log') ''p_20260101_000000'' = None
         \<and> record_step (\<lambda>d. d) log' ''p_20260101_000000'' ''a'' ''{}'' ''{}'' ''diff'' 5 None ''t''
             = log'
         \<and> finalize no_outside log' ''p_20260101_000000'' ''failed'' ''t'' = (Inr None, log')"
    by (intro exI conjI)
  from g 1 m 2 4 show ?thesis by (intro conjI)
qed




text \<open>
  C9, as amended. Every artifact identifier that \<^verbatim>\<open>record_plan_start\<close> generates
  is the plan identifier, an underscore and the clock's timestamp, and it is
  active afterwards. \<^verbatim>\<open>list_artifacts\<close> returns the stems of the stored
  \<^verbatim>\<open>*.json\<close> files sorted in descending order of the strings, which among the
  identifiers of one plan identifier is the descending order of their
  timestamps, most recent first. Given a plan identifier, it returns a part of that
  listing, in the same order, which holds every stored identifier of that plan
  and no identifier of another plan identifier of the same length. An artifact
  that \<^verbatim>\<open>finalize\<close> wrote under an identifier without a slash is listed.
\<close>

theorem artifact_ids_and_listing:
  "fst (record_plan_start log plan plan_text fp meta stamp now) = plan_id plan @ ''_'' @ stamp
   \<and> map_of (active_artifacts (snd (record_plan_start log plan plan_text fp meta stamp now)))
        (plan_id plan @ ''_'' @ stamp) \<noteq> None
   \<and> rev (list_artifacts log None) = sort (map stem (glob_json log))
   \<and> sorted (rev (list_artifacts log flt))
   \<and> subseq (list_artifacts log (Some pid)) (list_artifacts log None)
   \<and> filter (\<lambda>a. a = pid @ ''_'' @ t1) (list_artifacts log (Some pid))
       = filter (\<lambda>a. a = pid @ ''_'' @ t1) (list_artifacts log None)
   \<and> (length q = length pid \<and> q \<noteq> pid \<longrightarrow>
        q @ ''_'' @ t1 \<notin> set (list_artifacts log (Some pid)))
   \<and> ((pid @ ''_'' @ t1 < pid @ ''_'' @ t2) = (t1 < t2))
   \<and> (\<forall>path log'. finalize outside log aid final now = (Inr (Some path), log')
          \<and> aid \<noteq> [] \<and> CHR ''/'' \<notin> set aid \<longrightarrow>
        aid \<in> set (list_artifacts log' None))"
proof -
  have "q @ ''_'' @ t1 \<notin> set (list_artifacts log (Some pid))"
    if "length q = length pid" "q \<noteq> pid"
    using that prefix_same_length [of pid q "''_'' @ t1"]
    by (auto simp: list_artifacts_def)
  moreover have "aid \<in> set (list_artifacts log' None)"
    if "finalize outside log aid final now = (Inr (Some path), log')" "aid \<noteq> []"
      "CHR ''/'' \<notin> set aid" for path log'
    using finalize_listed [OF that] by simp
  moreover have "subseq (list_artifacts log (Some pid)) (list_artifacts log None)"
    by (rule subseq_listing)
  moreover have "sorted (rev (list_artifacts log flt))"
    by (simp add: list_artifacts_def)
  moreover have "rev (list_artifacts log None) = sort (map stem (glob_json log))"
    by (simp add: list_artifacts_def)
  ultimately show ?thesis
    using filter_listing [of pid "''_'' @ t1" log]
    by (simp add: record_plan_start_def Let_def update_conv append_less_iff)
qed

text \<open>Witness: the log of two runs, a plan identifier \<open>q\<close> beside \<open>p\<close>, and
  the log in which plan \<open>p\<close> was started, then finalized.\<close>

theorem artifact_ids_and_listing_witness:
  "fst (record_plan_start (new_log ''out'') (new_plan []) ''{}'' ''f00d'' None
          ''20260101_000000'' ''start'') = ''plan-0123456789ab_20260101_000000''
   \<and> sorted (rev (list_artifacts example_log None))
   \<and> length ''q'' = length ''p'' \<and> ''q'' \<noteq> ''p''
   \<and> ''q_20260101_000000'' \<notin> set (list_artifacts example_log (Some ''p''))
   \<and> (''p_20260101_000000'' < ''p_20270101_000000'')
   \<and> (\<exists>path log'. finalize no_outside (started ''p'' ''20260101_000000'' (new_log ''out''))
                      ''p_20260101_000000'' ''success'' ''end'' = (Inr (Some path), log')
         \<and> ''p_20260101_000000'' \<noteq> [] \<and> CHR ''/'' \<notin> set ''p_20260101_000000''
         \<and> ''p_20260101_000000'' \<in> set (list_artifacts log' None))"
proof -
  obtain path log' where
    f: "finalize no_outside (started ''p'' ''20260101_000000'' (new_log ''out''))
          ''p_20260101_000000'' ''success'' ''end'' = (Inr (Some path), log')"
    by (simp add: finalize_def write_text_def to_json_def to_dict_def dump_item_def
        started_def record_plan_start_def new_log_def new_plan_def bind_err_def Let_def)
  have n: "''p_20260101_000000'' \<noteq> []" "CHR ''/'' \<notin> set ''p_20260101_000000''"
    by simp_all
  have q: "length ''q'' = length ''p''" "''q'' \<noteq> ''p''"
    by simp_all
  note a = artifact_ids_and_listing [of "new_log ''out''" "new_plan []" "''{}''" "''f00d''" None
      "''20260101_000000''" "''start''" None "''p''" "''20260101_000000''" "''q''"
      "''20270101_000000''" no_outside "''x''" "''success''"]
  note b = artifact_ids_and_listing [of "started ''p'' ''20260101_000000'' (new_log ''out'')"
      "new_plan []" "''{}''" "''f00d''" None
      "''20260101_000000''" "''end''" None "''p''" "''20260101_000000''" "''q''"
      "''20270101_000000''" no_outside "''p_20260101_000000''" "''success''"]
  note c = artifact_ids_and_listing [of example_log "new_plan []" "''{}''" "''f00d''" None
      "''20260101_000000''" "''end''" None "''p''" "''20260101_000000''" "''q''"
      "''20270101_000000''" no_outside "''p_20260101_000000''" "''success''"]
  from a have 1: "fst (record_plan_start (new_log ''out'') (new_plan []) ''{}'' ''f00d'' None
          ''20260101_000000'' ''start'') = ''plan-0123456789ab_20260101_000000''"
    by (simp add: new_plan_def)
  from c have 2: "sorted (rev (list_artifacts example_log None))"
    by (elim conjE)
  from c q have 3: "''q_20260101_000000'' \<notin> set (list_artifacts example_log (Some ''p''))"
    by simp
  from a have 4: "''p_20260101_000000'' < ''p_20270101_000000''"
    by simp
  from b [THEN conjunct2, THEN conjunct2, THEN conjunct2, THEN conjunct2, THEN conjunct2,
      THEN conjunct2, THEN conjunct2, THEN conjunct2] f n
  have 5: "''p_20260101_000000'' \<in> set (list_artifacts log' None)"
    by blast
  from f n 5 have 6: "\<exists>path log'. finalize no_outside (started ''p'' ''20260101_000000'' (new_log ''out''))
                      ''p_20260101_000000'' ''success'' ''end'' = (Inr (Some path), log')
         \<and> ''p_20260101_000000'' \<noteq> [] \<and> CHR ''/'' \<notin> set ''p_20260101_000000''
         \<and> ''p_20260101_000000'' \<in> set (list_artifacts log' None)"
    by (intro exI conjI)
  from 1 2 q 3 4 6 show ?thesis by (intro conjI)
qed

text \<open>The claim as it was stated fails on a log that holds a run of plan \<open>p\<close> and
  a later run of plan \<open>p1\<close>: filtered by \<open>p\<close>, the listing also returns the
  artifact of \<open>p1\<close>, and the more recent artifact comes last.\<close>

theorem list_artifacts_prefix_filter:
  "list_artifacts example_log (Some ''p'') = [''p_20260101_000000'', ''p1_20270101_000000'']
   \<and> list_artifacts example_log None = [''p_20260101_000000'', ''p1_20270101_000000'']
   \<and> load example_log ''p1_20270101_000000''
       = Inr (Some \<lparr>pa_plan_id = PStr ''p1'', plan_json = PStr ''{}'',
                    repo_fingerprint = PStr ''f00d'', step_artifacts = [],
                    start_time = PStr ''start'', end_time = PStr ''end'',
                    final_status = PStr ''success'', metadata = PDict []\<rparr>)"
  by code_simp

text \<open>
  C10, as amended. Halting blocks dispatch but does not freeze mutation:
  \<^verbatim>\<open>revise_plan\<close> does not look at \<^verbatim>\<open>state.halted\<close>. For a halted state and a
  failure outcome whose step is FAILED with a failure count of 1,
  \<^verbatim>\<open>revise_plan\<close> resets the step to PENDING, increments \<^verbatim>\<open>revision_count\<close>,
  sets \<^verbatim>\<open>consecutive_failures\<close> to 0 and increments \<^verbatim>\<open>plan.version\<close>, while
  \<^verbatim>\<open>next_step\<close> returns \<open>None\<close> before and after, and in every later call
  of a run from there, the state staying halted.
\<close>

theorem revise_plan_ignores_halt:
  assumes "halted s"
    and "get_step p (o_step_id failure) = Some i"
    and "failure_count (steps p ! i) = 1" "status (steps p ! i) = FAILED"
  shows "revise_plan p s failure =
           Inr (p\<lparr>steps := (steps p)[i := (steps p ! i)\<lparr>status := PENDING\<rparr>],
                  version := version p + 1\<rparr>,
                s\<lparr>revision_count := revision_count s + 1, consecutive_failures := 0\<rparr>)
    \<and> next_step p s = Inr (None, p, s)
    \<and> (\<forall>p' s'. revise_plan p s failure = Inr (p', s') \<longrightarrow>
          halted s' \<and> next_step p' s' = Inr (None, p', s')
          \<and> (\<forall>cs rs p'' s''. run p' s' cs = Inr (rs, p'', s'') \<longrightarrow>
                halted s'' \<and> list_all (\<lambda>r. r = None) rs))"
proof -
  have r: "revise_plan p s failure =
           Inr (p\<lparr>steps := (steps p)[i := (steps p ! i)\<lparr>status := PENDING\<rparr>],
                  version := version p + 1\<rparr>,
                s\<lparr>revision_count := revision_count s + 1, consecutive_failures := 0\<rparr>)"
    using assms by (simp add: revise_plan_def Let_def reset_for_retry_def retry_ceiling_def)
  have n: "next_step p s = Inr (None, p, s)"
    using assms(1) by (simp add: next_step_def)
  have "halted s' \<and> next_step p' s' = Inr (None, p', s')
      \<and> (\<forall>cs rs p'' s''. run p' s' cs = Inr (rs, p'', s'') \<longrightarrow>
            halted s'' \<and> list_all (\<lambda>r. r = None) rs)"
    if "revise_plan p s failure = Inr (p', s')" for p' s'
  proof -
    from that r assms(1) have h: "halted s'" by auto
    then have "next_step p' s' = Inr (None, p', s')" by (simp add: next_step_def)
    with h run_halted [OF _ h] show ?thesis by blast
  qed
  with r n show ?thesis by blast
qed

text \<open>Witness: the state scenario C ends in without a revision, halted by the
  second failure, with step \<open>b\<close> failed once.\<close>

theorem revise_plan_ignores_halt_witness:
  "halted halted_state
   \<and> get_step both_failed (o_step_id (failed ''b'')) = Some 1
   \<and> failure_count (steps both_failed ! 1) = 1 \<and> status (steps both_failed ! 1) = FAILED
   \<and> revise_plan both_failed halted_state (failed ''b'') = Inr (reset_plan, reset_state)
   \<and> halted reset_state \<and> revision_count reset_state = revision_count halted_state + 1
   \<and> version reset_plan = version both_failed + 1
   \<and> next_step reset_plan reset_state = Inr (None, reset_plan, reset_state)"
proof -
  have h: "halted halted_state"
    and g: "get_step both_failed (o_step_id (failed ''b'')) = Some 1"
    and f: "failure_count (steps both_failed ! 1) = 1" "status (steps both_failed ! 1) = FAILED"
    by (simp_all add: halted_state_def both_failed_def get_step_def test_defs)
  note t = revise_plan_ignores_halt [OF h g f]
  from t have r: "revise_plan both_failed halted_state (failed ''b'') = Inr (reset_plan, reset_state)"
    by (simp add: halted_state_def both_failed_def reset_plan_def reset_state_def test_defs)
  from t [THEN conjunct2, THEN conjunct2, rule_format, OF r]
  have "halted reset_state" "next_step reset_plan reset_state = Inr (None, reset_plan, reset_state)"
    by simp_all
  moreover have "revision_count reset_state = revision_count halted_state + 1"
    "version reset_plan = version both_failed + 1"
    by (simp_all add: reset_state_def halted_state_def reset_plan_def both_failed_def new_plan_def)
  ultimately show ?thesis using h g f r by (intro conjI)
qed

text \<open>The claim as it was stated, for every step with a failure count of 1, fails
  for a step that is not FAILED. After scenario C has halted the run and the
  failure of \<open>b\<close> was revised, \<open>b\<close> is PENDING with a failure count of 1; a
  second \<^verbatim>\<open>revise_plan\<close> for the same failure calls \<^verbatim>\<open>reset_for_retry\<close> outside
  its precondition, which raises, and nothing is incremented.\<close>

theorem revise_plan_raises_when_not_failed:
  "run pair_plan fresh_state
     [NextStep, UpdateState (failed ''a''), NextStep, UpdateState (failed ''b''),
      RevisePlan (failed ''b'')]
     = Inr ([Some 0, Some 1], reset_plan, reset_state)
   \<and> halted reset_state
   \<and> get_step reset_plan (o_step_id (failed ''b'')) = Some 1
   \<and> failure_count (steps reset_plan ! 1) = 1
   \<and> revise_plan reset_plan reset_state (failed ''b'')
       = Inl (InvalidTransition PENDING PENDING)"
  by code_simp

end
